theory Spec2Isabelle
  imports Main "HOL-Library.Multiset" "HOL-Library.AList"
begin

section \<open>Python values and exceptions\<close>

text \<open>
  The notebooks read HTTP responses as parsed JSON.  A parsed JSON document is a Python
  value: \<open>None\<close>, a bool, a number, a string, a list or a dict.  A dict is kept
  as the list of its items in insertion order (its keys are distinct).  The value of a
  number is never inspected by the code modelled here, so integers stand for all numbers.
\<close>

datatype json =
    JNull
  | JBool bool
  | JNum int
  | JStr string
  | JArr "json list"
  | JObj "(string \<times> json) list"

text \<open>
  Exceptions are values.  \<open>RequestFailed\<close> is the exception \<open>pii_bot\<close> raises itself
  (with the status code and the response text), \<open>ApiError\<close> the one the query-history
  notebook raises (with the response text); the others are raised by Python, by the
  HTTP client or by Spark.
\<close>

datatype py_error =
    KeyError
  | IndexError
  | TypeError
  | AttributeError
  | NameError
  | JSONDecodeError
  | ConnectionError
  | RequestFailed int string
  | ApiError string
  | AnalysisException
  | SparkError
  | SqlError string
  | IndexFailed
  | IndexTimeout

text \<open>Sequencing of computations that may raise: the first exception wins.\<close>

definition bind :: "py_error + 'a \<Rightarrow> ('a \<Rightarrow> py_error + 'b) \<Rightarrow> py_error + 'b" where
  "bind m f = (case m of Inl e \<Rightarrow> Inl e | Inr x \<Rightarrow> f x)"

fun map_result :: "('a \<Rightarrow> py_error + 'b) \<Rightarrow> 'a list \<Rightarrow> py_error + 'b list" where
  "map_result f [] = Inr []"
| "map_result f (x # xs) =
     (case f x of
        Inl e \<Rightarrow> Inl e
      | Inr y \<Rightarrow> (case map_result f xs of Inl e \<Rightarrow> Inl e | Inr ys \<Rightarrow> Inr (y # ys)))"

text \<open>\<open>d[key]\<close> for a string key: a dict looks the key up, any other value raises.\<close>

fun py_getitem :: "json \<Rightarrow> string \<Rightarrow> py_error + json" where
  "py_getitem (JObj items) key =
     (case map_of items key of None \<Rightarrow> Inl KeyError | Some v \<Rightarrow> Inr v)"
| "py_getitem _ key = Inl TypeError"

text \<open>
  \<open>v[0]\<close>: the first element of a list, the first character of a string; a dict parsed
  from JSON has string keys only, so the key \<open>0\<close> is missing.
\<close>

fun py_getitem0 :: "json \<Rightarrow> py_error + json" where
  "py_getitem0 (JArr []) = Inl IndexError"
| "py_getitem0 (JArr (x # xs)) = Inr x"
| "py_getitem0 (JStr []) = Inl IndexError"
| "py_getitem0 (JStr (c # cs)) = Inr (JStr [c])"
| "py_getitem0 (JObj items) = Inl KeyError"
| "py_getitem0 _ = Inl TypeError"

text \<open>\<open>for x in v\<close>: a list yields its elements, a dict its keys, a string its characters.\<close>

fun py_iter :: "json \<Rightarrow> py_error + json list" where
  "py_iter (JArr xs) = Inr xs"
| "py_iter (JObj items) = Inr (map (\<lambda>kv. JStr (fst kv)) items)"
| "py_iter (JStr s) = Inr (map (\<lambda>c. JStr [c]) s)"
| "py_iter _ = Inl TypeError"

text \<open>Truthiness, as \<open>if v:\<close> and \<open>v and ...\<close> test it.\<close>

fun truthy :: "json \<Rightarrow> bool" where
  "truthy JNull = False"
| "truthy (JBool b) = b"
| "truthy (JNum n) = (n \<noteq> 0)"
| "truthy (JStr s) = (s \<noteq> [])"
| "truthy (JArr xs) = (xs \<noteq> [])"
| "truthy (JObj items) = (items \<noteq> [])"

section \<open>\<open>pii_bot\<close>: the model-serving UDF of \<open>04_Data_ETL.py\<close>\<close>

text \<open>
  What an invocation does to the outside world is recorded as a list of events, in
  order.  \<open>Sleep n\<close> is \<open>time.sleep(n)\<close> in seconds, \<open>Post prompts\<close> the
  \<open>requests.post\<close> to the serving endpoint with the formatted prompts as payload,
  \<open>Print i\<close> the progress line of the batching loop.
\<close>

datatype event = Sleep nat | Post "string list" | Print nat

text \<open>
  The system prompt is a template for \<open>str.format\<close>: literal text and named
  replacement fields.  \<open>system_prompt.format(instruction=prompt)\<close> fills the field
  \<open>instruction\<close>; it raises \<open>IndexError\<close> at a positional field (an empty or
  numeric name, as in \<open>{}\<close> and \<open>{0}\<close>) and \<open>KeyError\<close> at any other name.
\<close>

datatype piece = Lit string | Field string

definition positional :: "string \<Rightarrow> bool" where
  "positional f = list_all (\<lambda>c. c \<in> set ''0123456789'') f"

fun format_instruction :: "piece list \<Rightarrow> string \<Rightarrow> py_error + string" where
  "format_instruction [] prompt = Inr []"
| "format_instruction (Lit s # ps) prompt =
     (case format_instruction ps prompt of Inl e \<Rightarrow> Inl e | Inr r \<Rightarrow> Inr (s @ r))"
| "format_instruction (Field f # ps) prompt =
     (if f = ''instruction''
      then (case format_instruction ps prompt of Inl e \<Rightarrow> Inl e | Inr r \<Rightarrow> Inr (prompt @ r))
      else if positional f then Inl IndexError
      else Inl KeyError)"

text \<open>
  An HTTP response: its status code, its text (\<open>response.text\<close>, here
  \<open>content\<close>), and what \<open>response.json()\<close> gives
  (\<open>None\<close> when the text is not JSON, where \<open>response.json()\<close> raises).
\<close>

record response =
  status_code :: int
  content :: string
  body :: "json option"

definition WAIT_SECONDS :: nat where
  "WAIT_SECONDS = 5"

text \<open>\<open>prediction["candidates"][0]["text"]\<close>\<close>

definition first_candidate_text :: "json \<Rightarrow> py_error + json" where
  "first_candidate_text prediction =
     bind (py_getitem prediction ''candidates'')
       (\<lambda>candidates. bind (py_getitem0 candidates) (\<lambda>candidate. py_getitem candidate ''text''))"

text \<open>The part of \<open>pii_bot\<close> after the request: the status check and the parse.\<close>

definition read_predictions :: "response \<Rightarrow> py_error + json list" where
  "read_predictions r =
     (if status_code r \<noteq> 200 then Inl (RequestFailed (status_code r) (content r))
      else case body r of
             None \<Rightarrow> Inl JSONDecodeError
           | Some response_json \<Rightarrow>
               bind (py_getitem response_json ''predictions'')
                 (\<lambda>predictions. bind (py_iter predictions) (map_result first_candidate_text)))"

text \<open>
  \<open>pii_bot\<close> itself.  \<open>system_prompt\<close> is the notebook's global template and
  \<open>endpoint\<close> the serving endpoint: what \<open>requests.post\<close> does with the payload,
  a response or an exception of the HTTP client.  The result is the trace of events and
  either the exception raised or the returned series.
\<close>

definition pii_bot ::
  "piece list \<Rightarrow> (string list \<Rightarrow> py_error + response) \<Rightarrow> string list
     \<Rightarrow> event list \<times> (py_error + json list)" where
  "pii_bot system_prompt endpoint prompts =
     (case map_result (format_instruction system_prompt) prompts of
        Inl e \<Rightarrow> ([], Inl e)
      | Inr formatted_prompts \<Rightarrow>
          ([Sleep WAIT_SECONDS, Post formatted_prompts],
           bind (endpoint formatted_prompts) read_predictions))"

text \<open>Every \<open>Post\<close> of a trace comes right after a \<open>Sleep d\<close>.\<close>

fun posts_delayed :: "nat \<Rightarrow> event list \<Rightarrow> bool" where
  "posts_delayed d [] = True"
| "posts_delayed d (Sleep n # Post p # es) = (n = d \<and> posts_delayed d es)"
| "posts_delayed d (Post p # es) = False"
| "posts_delayed d (e # es) = posts_delayed d es"

text \<open>
  The response shape the endpoint documents: a prediction is a dict whose
  \<open>candidates\<close> is a non-empty list, the first candidate a dict with a \<open>text\<close>.
\<close>

fun has_first_text :: "json \<Rightarrow> json \<Rightarrow> bool" where
  "has_first_text (JObj p) t =
     (case map_of p ''candidates'' of
        Some (JArr (JObj c # cs)) \<Rightarrow> map_of c ''text'' = Some t
      | _ \<Rightarrow> False)"
| "has_first_text _ t = False"

section \<open>\<open>batch_process_prompts\<close>: sequential batches with a fixed delay\<close>

text \<open>
  A DataFrame is its schema (the column names, in order) and its rows; a row holds one
  cell per column, keyed by the column name.  Spark evaluates a DataFrame lazily; the
  model is the value the DataFrame has when it is evaluated, on the assumption that the
  (cached) input evaluates to the same rows each time.
\<close>

datatype cell = CNull | CStr string | CLong int

type_synonym row = "(string \<times> cell) list"

record dataframe =
  columns :: "string list"
  rows :: "row list"


definition cell_of :: "row \<Rightarrow> string \<Rightarrow> cell" where
  "cell_of r name = (case map_of r name of None \<Rightarrow> CNull | Some v \<Rightarrow> v)"


definition filter_df :: "(row \<Rightarrow> bool) \<Rightarrow> dataframe \<Rightarrow> dataframe" where
  "filter_df p df = \<lparr>columns = columns df, rows = filter p (rows df)\<rparr>"


















section \<open>\<open>query_history_api_to_delta.py\<close>: paging through the query history\<close>

text \<open>
  \<open>get_boolean_keys(arrays)\<close>: the keys whose value is a bool, over all dicts of
  the list, in order.  \<open>array.keys()\<close> raises \<open>AttributeError\<close> on a value that is
  not a dict.
\<close>

fun is_bool :: "json \<Rightarrow> bool" where
  "is_bool (JBool b) = True"
| "is_bool _ = False"

fun boolean_keys_of :: "json list \<Rightarrow> py_error + string list" where
  "boolean_keys_of [] = Inr []"
| "boolean_keys_of (JObj items # arrays) =
     (case boolean_keys_of arrays of
        Inl e \<Rightarrow> Inl e
      | Inr keys \<Rightarrow> Inr (map fst (filter (\<lambda>kv. is_bool (snd kv)) items) @ keys))"
| "boolean_keys_of (_ # arrays) = Inl AttributeError"

definition get_boolean_keys :: "json \<Rightarrow> py_error + string list" where
  "get_boolean_keys arrays = bind (py_iter arrays) boolean_keys_of"

text \<open>
  \<open>str(v).lower()\<close>: \<open>true\<close> and \<open>false\<close> for the bools, which is what the
  conversion is for; on any other value it is Python's \<open>str\<close>, a parameter here.
\<close>

definition py_str_lower :: "(json \<Rightarrow> string) \<Rightarrow> json \<Rightarrow> string" where
  "py_str_lower str_lower v =
     (case v of JBool b \<Rightarrow> (if b then ''true'' else ''false'') | _ \<Rightarrow> str_lower v)"

text \<open>
  \<open>for key in boolean_keys_to_convert: array_to_process[key] = str(array_to_process[key]).lower()\<close>.
  Reading a key the dict does not have raises \<open>KeyError\<close>; assigning to a key it
  has keeps the key's place.
\<close>

fun convert_keys :: "(json \<Rightarrow> string) \<Rightarrow> string list \<Rightarrow> (string \<times> json) list
    \<Rightarrow> py_error + (string \<times> json) list" where
  "convert_keys str_lower [] items = Inr items"
| "convert_keys str_lower (key # keys) items =
     (case map_of items key of
        None \<Rightarrow> Inl KeyError
      | Some v \<Rightarrow> convert_keys str_lower keys
                   (AList.update key (JStr (py_str_lower str_lower v)) items))"

fun convert_array :: "(json \<Rightarrow> string) \<Rightarrow> string list \<Rightarrow> json \<Rightarrow> py_error + json" where
  "convert_array str_lower keys (JObj items) =
     (case convert_keys str_lower keys items of Inl e \<Rightarrow> Inl e | Inr items' \<Rightarrow> Inr (JObj items'))"
| "convert_array str_lower keys _ = Inl TypeError"

definition convert_booleans :: "(json \<Rightarrow> string) \<Rightarrow> json \<Rightarrow> py_error + json list" where
  "convert_booleans str_lower res =
     bind (get_boolean_keys res)
       (\<lambda>keys. bind (py_iter res) (map_result (convert_array str_lower (remdups keys))))"

text \<open>
  The queries table holds one row per query, a row being the columns of the cleaned page
  (\<open>query_results_clean\<close>).  The rows of a page are what Spark makes of the converted
  dicts (\<open>spark.read.json\<close>, the two time columns, the \<open>error_message\<close> column):
  a parameter \<open>spark_clean\<close> of the model, which may raise.
\<close>

type_synonym qrow = "(string \<times> json) list"

text \<open>
  The Delta merge on \<open>queryResults.query_id = newQueryResults.query_id\<close> with
  \<open>whenMatchedUpdateAll\<close> and \<open>whenNotMatchedInsertAll\<close>.  A null never
  matches.  Delta refuses the merge when several source rows match one target row.
\<close>

definition id_matches :: "qrow \<Rightarrow> qrow \<Rightarrow> bool" where
  "id_matches t s =
     (case (map_of t ''query_id'', map_of s ''query_id'') of
        (Some a, Some b) \<Rightarrow> a = b \<and> a \<noteq> JNull
      | _ \<Rightarrow> False)"

definition delta_merge :: "qrow list \<Rightarrow> qrow list \<Rightarrow> py_error + qrow list" where
  "delta_merge target source =
     (if list_ex (\<lambda>t. 1 < length (filter (id_matches t) source)) target then Inl SparkError
      else Inr (map (\<lambda>t. case find (id_matches t) source of Some s \<Rightarrow> s | None \<Rightarrow> t) target
                @ filter (\<lambda>s. \<not> list_ex (\<lambda>t. id_matches t s) target) source))"

text \<open>
  \<open>check_table_exist\<close> is true when Spark can read the table: the table is
  \<open>None\<close> while it does not exist.  A page is saved as the table when there is
  none and merged into it otherwise.
\<close>

definition check_table_exist :: "qrow list option \<Rightarrow> bool" where
  "check_table_exist table = (table \<noteq> None)"

definition write_page :: "qrow list \<Rightarrow> qrow list option \<Rightarrow> py_error + qrow list" where
  "write_page query_results_clean table =
     (if \<not> check_table_exist table then Inr query_results_clean
      else case table of
             None \<Rightarrow> Inr query_results_clean
           | Some queries_table \<Rightarrow> delta_merge queries_table query_results_clean)"

datatype request = WithPageToken json | WithFilter

datatype qh_event = Get request | Write "qrow list"

record qh_state =
  next_page_token :: json
  has_next_page :: json
  pages_fetched :: nat
  queries_table :: "qrow list option"
  qh_trace :: "qh_event list"

definition MAX_PAGES_PER_RUN :: nat where
  "MAX_PAGES_PER_RUN = 500"

text \<open>
  The environment of a run: \<open>api k\<close> is what \<open>requests.get\<close> gives for the
  request number \<open>k\<close> of the run (counted from 0), a response or an exception of the
  HTTP client.  Since the run fixes the request it sends as number \<open>k\<close>, a service
  whose answer depends on the request is covered.
\<close>

record qh_env =
  api :: "nat \<Rightarrow> py_error + response"
  str_lower :: "json \<Rightarrow> string"
  spark_clean :: "json list \<Rightarrow> py_error + qrow list"

text \<open>
  One iteration of the \<open>while\<close> loop.  The result is the exception raised, if any,
  and the state at that point.
\<close>

definition fetch_page :: "qh_env \<Rightarrow> qh_state \<Rightarrow> py_error option \<times> qh_state" where
  "fetch_page env st =
     (let request_parameters =
            (if truthy (next_page_token st) then WithPageToken (next_page_token st) else WithFilter);
          st1 = st\<lparr>pages_fetched := pages_fetched st + 1,
                   qh_trace := qh_trace st @ [Get request_parameters]\<rparr>
      in case api env (pages_fetched st) of
           Inl e \<Rightarrow> (Some e, st1)
         | Inr response \<Rightarrow>
             if status_code response \<noteq> 200 then (Some (ApiError (content response)), st1)
             else (case body response of
                    None \<Rightarrow> (Some JSONDecodeError, st1)
                  | Some response_json \<Rightarrow>
             (case py_getitem response_json ''next_page_token'' of
                Inl e \<Rightarrow> (Some e, st1)
              | Inr token \<Rightarrow>
             (case py_getitem response_json ''has_next_page'' of
                Inl e \<Rightarrow> (Some e, st1\<lparr>next_page_token := token\<rparr>)
              | Inr more_pages \<Rightarrow>
             (let st2 = st1\<lparr>next_page_token := token, has_next_page := more_pages\<rparr>
              in case bind (py_getitem response_json ''res'')
                        (\<lambda>res. bind (convert_booleans (str_lower env) res) (spark_clean env)) of
                   Inl e \<Rightarrow> (Some e, st2)
                 | Inr query_results_clean \<Rightarrow>
                     (case write_page query_results_clean (queries_table st2) of
                        Inl e \<Rightarrow> (Some e, st2)
                      | Inr table \<Rightarrow>
                          (None, st2\<lparr>queries_table := Some table,
                                      qh_trace := qh_trace st2 @ [Write query_results_clean]\<rparr>)))))))"

text \<open>
  \<open>while (has_next_page and pages_fetched < MAX_PAGES_PER_RUN)\<close>.  Each iteration
  raises or increases \<open>pages_fetched\<close>, which is the termination argument.
\<close>

lemma fetch_page_pages_fetched: "pages_fetched (snd (fetch_page env st)) = pages_fetched st + 1"
  by (simp add: fetch_page_def Let_def split: sum.split option.split)

function fetch_loop :: "qh_env \<Rightarrow> qh_state \<Rightarrow> py_error option \<times> qh_state" where
  "fetch_loop env st =
     (if truthy (has_next_page st) \<and> pages_fetched st < MAX_PAGES_PER_RUN
      then (case fetch_page env st of
              (Some e, st') \<Rightarrow> (Some e, st')
            | (None, st') \<Rightarrow> fetch_loop env st')
      else (None, st))"
  by pat_completeness auto
termination
proof (relation "measure (\<lambda>(env, st). MAX_PAGES_PER_RUN - pages_fetched st)")
  show "wf (measure (\<lambda>(env, st). MAX_PAGES_PER_RUN - pages_fetched st))" by simp
next
  fix env st x1 x2
  assume "truthy (has_next_page st) \<and> pages_fetched st < MAX_PAGES_PER_RUN"
    and "(x1, x2) = fetch_page env st"
  then show "((env, x2), (env, st)) \<in> measure (\<lambda>(env, st). MAX_PAGES_PER_RUN - pages_fetched st)"
    using fetch_page_pages_fetched [of env st]
    by (metis (mono_tags, lifting) diff_less_mono2 in_measure less_add_one old.prod.case snd_conv)
qed

declare fetch_loop.simps [simp del]

definition query_history_run :: "qh_env \<Rightarrow> qrow list option \<Rightarrow> py_error option \<times> qh_state" where
  "query_history_run env table =
     fetch_loop env \<lparr>next_page_token = JNull, has_next_page = JBool True, pages_fetched = 0,
                     queries_table = table, qh_trace = []\<rparr>"

text \<open>
  What the API's response to request number \<open>k\<close> reports as
  \<open>has_next_page\<close>: \<open>None\<close> when there is no response, no JSON body or no such key.
\<close>

definition reported_has_next_page :: "qh_env \<Rightarrow> nat \<Rightarrow> json option" where
  "reported_has_next_page env k =
     (case api env k of
        Inl e \<Rightarrow> None
      | Inr response \<Rightarrow>
          (case body response of
             None \<Rightarrow> None
           | Some response_json \<Rightarrow>
               (case py_getitem response_json ''has_next_page'' of
                  Inl e \<Rightarrow> None
                | Inr more_pages \<Rightarrow> Some more_pages)))"

text \<open>A page step that completes; its reflexive transitive closure is a run of fully processed pages.\<close>

definition page_done :: "qh_env \<Rightarrow> qh_state \<Rightarrow> qh_state \<Rightarrow> bool" where
  "page_done env st st' =
     (truthy (has_next_page st) \<and> pages_fetched st < MAX_PAGES_PER_RUN
      \<and> fetch_page env st = (None, st'))"

fun is_get :: "qh_event \<Rightarrow> bool" where
  "is_get (Get q) = True"
| "is_get _ = False"

fun is_write :: "qh_event \<Rightarrow> bool" where
  "is_write (Write p) = True"
| "is_write _ = False"

section \<open>Quarantining and cleansing the detected PII (\<open>04_Data_ETL.py\<close>)\<close>

text \<open>
  SQL columns are nullable: a \<open>STRING\<close> column is a \<open>string option\<close>, with
  \<open>None\<close> for \<open>NULL\<close>.  A row of \<open>view_bronze_documents_pii_handled_expanded\<close>
  has the two fields of the exploded struct (\<open>pii_type\<close> and \<open>value\<close>, here
  \<open>pii_value\<close>) beside the columns of the message.
\<close>

record pii_struct =
  pii_type :: "string option"
  pii_value :: "string option"

record expanded_row = pii_struct +
  message_id :: "string option"
  unmasked_text :: "string option"
  departments :: "string list option"
  prompt_profiling :: "string option"
  prompt_categorisation :: "string option"

text \<open>
  \<open>INSTR(str, substr)\<close>: the position, from 1, of the first occurrence of
  \<open>substr\<close> in \<open>str\<close>, 0 when there is none, \<open>NULL\<close> when an argument is
  \<open>NULL\<close>.  The empty string occurs at position 1.
\<close>

fun instr_pos :: "string \<Rightarrow> string \<Rightarrow> nat" where
  "instr_pos [] sub = (if sub = [] then 1 else 0)"
| "instr_pos (c # cs) sub =
     (if take (length sub) (c # cs) = sub then 1
      else (case instr_pos cs sub of 0 \<Rightarrow> 0 | Suc n \<Rightarrow> Suc (Suc n)))"

definition INSTR :: "string option \<Rightarrow> string option \<Rightarrow> int option" where
  "INSTR str substr =
     (case (str, substr) of
        (Some s, Some sub) \<Rightarrow> Some (int (instr_pos s sub))
      | _ \<Rightarrow> None)"

text \<open>SQL's three-valued logic: \<open>None\<close> is \<open>UNKNOWN\<close>.\<close>

definition sql_or :: "bool option \<Rightarrow> bool option \<Rightarrow> bool option" where
  "sql_or a b =
     (if a = Some True \<or> b = Some True then Some True
      else if a = None \<or> b = None then None
      else Some False)"

definition sql_and :: "bool option \<Rightarrow> bool option \<Rightarrow> bool option" where
  "sql_and a b =
     (if a = Some False \<or> b = Some False then Some False
      else if a = None \<or> b = None then None
      else Some True)"

definition sql_not :: "bool option \<Rightarrow> bool option" where
  "sql_not a = map_option Not a"

definition sql_le :: "int option \<Rightarrow> int \<Rightarrow> bool option" where
  "sql_le a n = map_option (\<lambda>x. x \<le> n) a"

definition sql_gt :: "int option \<Rightarrow> int \<Rightarrow> bool option" where
  "sql_gt a n = map_option (\<lambda>x. x > n) a"

definition sql_in :: "string option \<Rightarrow> string list \<Rightarrow> bool option" where
  "sql_in a vs = map_option (\<lambda>x. x \<in> set vs) a"

text \<open>A \<open>WHERE\<close> clause keeps a row when its condition is \<open>TRUE\<close>.\<close>

definition where_true :: "bool option \<Rightarrow> bool" where
  "where_true c = (c = Some True)"

text \<open>
  The condition of the quarantine \<open>INSERT\<close>:
  \<open>INSTR(unmasked_text, value) <= 0 OR value IN ("", "...")\<close>.
\<close>

definition quarantine_where :: "expanded_row \<Rightarrow> bool option" where
  "quarantine_where r =
     sql_or (sql_le (INSTR (unmasked_text r) (pii_value r)) 0)
            (sql_in (pii_value r) [[], ''...''])"

text \<open>
  The condition of \<open>expanded_filtered\<close>:
  \<open>INSTR(unmasked_text, value) > 0 AND value NOT IN ("", "...") AND departments IS NOT NULL\<close>.
\<close>

definition cleansed_where :: "expanded_row \<Rightarrow> bool option" where
  "cleansed_where r =
     sql_and (sql_and (sql_gt (INSTR (unmasked_text r) (pii_value r)) 0)
                      (sql_not (sql_in (pii_value r) [[], ''...''])))
             (Some (departments r \<noteq> None))"

text \<open>
  The rows the first \<open>INSERT INTO ... quarantined\<close> adds:
  \<open>message_id, unmasked_text, departments, pii_type, value, prompt_profiling\<close>.
  (The two other inserts add rows whose \<open>value\<close> is \<open>NULL\<close>, for messages with a
  null \<open>pii_detected\<close> or null \<open>departments\<close>.)
\<close>

type_synonym quarantined_row =
  "string option \<times> string option \<times> string list option \<times> string option \<times> string option \<times> string option"

definition quarantined_columns :: "expanded_row \<Rightarrow> quarantined_row" where
  "quarantined_columns r =
     (message_id r, unmasked_text r, departments r, pii_type r, pii_value r, prompt_profiling r)"

definition quarantine_insert :: "expanded_row list \<Rightarrow> quarantined_row list" where
  "quarantine_insert source_view =
     map quarantined_columns (filter (\<lambda>r. where_true (quarantine_where r)) source_view)"

text \<open>
  The cleansed table: the filtered rows grouped by
  \<open>message_id, unmasked_text, departments\<close>, each group with the list of its
  \<open>STRUCT(pii_type, value)\<close>.  Grouping takes nulls as equal.
\<close>

type_synonym cleansed_row =
  "(string option \<times> string option \<times> string list option) \<times> pii_struct list"

definition group_key :: "expanded_row \<Rightarrow> string option \<times> string option \<times> string list option" where
  "group_key r = (message_id r, unmasked_text r, departments r)"

definition struct_of :: "expanded_row \<Rightarrow> pii_struct" where
  "struct_of r = \<lparr>pii_type = pii_type r, pii_value = pii_value r\<rparr>"

definition expanded_filtered :: "expanded_row list \<Rightarrow> expanded_row list" where
  "expanded_filtered view = filter (\<lambda>r. where_true (cleansed_where r)) view"

definition cleansed :: "expanded_row list \<Rightarrow> cleansed_row list" where
  "cleansed view =
     map (\<lambda>k. (k, map struct_of (filter (\<lambda>r. group_key r = k) (expanded_filtered view))))
       (remdups (map group_key (expanded_filtered view)))"

text \<open>A row of the view is in a table when the table holds its columns.\<close>

definition in_quarantined :: "expanded_row list \<Rightarrow> expanded_row \<Rightarrow> bool" where
  "in_quarantined view r = (quarantined_columns r \<in> set (quarantine_insert view))"

definition in_cleansed :: "expanded_row list \<Rightarrow> expanded_row \<Rightarrow> bool" where
  "in_cleansed view r =
     list_ex (\<lambda>g. fst g = group_key r \<and> struct_of r \<in> set (snd g)) (cleansed view)"

section \<open>\<open>redact_text\<close>: masking the detected PII\<close>

text \<open>
  \<open>s.replace(old, new)\<close> replaces the occurrences of \<open>old\<close> from left to right,
  without overlap.  With an empty \<open>old\<close> it puts \<open>new\<close> before every character
  and at the end.
\<close>

function replace_scan :: "string \<Rightarrow> string \<Rightarrow> string \<Rightarrow> string" where
  "replace_scan old new s =
     (if s = [] then []
      else if old \<noteq> [] \<and> take (length old) s = old
           then new @ replace_scan old new (drop (length old) s)
           else hd s # replace_scan old new (tl s))"
  by pat_completeness auto
termination
  by (relation "measure (\<lambda>(old, new, s). length s)") (auto simp: Suc_le_eq)

declare replace_scan.simps [simp del]

definition py_replace :: "string \<Rightarrow> string \<Rightarrow> string \<Rightarrow> string" where
  "py_replace s old new =
     (if old = [] then new @ concat (map (\<lambda>c. c # new) s) else replace_scan old new s)"

text \<open>\<open>sub in s\<close> for strings: \<open>sub\<close> occurs in \<open>s\<close>.\<close>

fun occurs_in :: "string \<Rightarrow> string \<Rightarrow> bool" where
  "occurs_in sub [] = (sub = [])"
| "occurs_in sub (c # cs) = (take (length sub) (c # cs) = sub \<or> occurs_in sub cs)"

text \<open>\<open>f"[{v}]"\<close>: a null prints as \<open>None\<close>.\<close>

definition bracketed :: "string option \<Rightarrow> string" where
  "bracketed t = ''['' @ (case t of None \<Rightarrow> ''None'' | Some n \<Rightarrow> n) @ '']''"

text \<open>
  The inner loop \<open>for item_pii in pii_list\<close>.  The text is \<open>None\<close> for a
  null \<open>unmasked_text\<close>, where \<open>unmasked_text.replace\<close> raises
  \<open>AttributeError\<close>; \<open>str.replace\<close> raises \<open>TypeError\<close> when the value is
  \<open>None\<close>.
\<close>

fun redact_items ::
  "string option \<Rightarrow> pii_struct list \<Rightarrow> string option list \<Rightarrow> py_error + string option" where
  "redact_items unmasked [] exclusions = Inr unmasked"
| "redact_items unmasked (item_pii # pii_list) exclusions =
     (if pii_type item_pii \<notin> set exclusions
      then (case unmasked of
              None \<Rightarrow> Inl AttributeError
            | Some t \<Rightarrow>
                (case pii_value item_pii of
                   None \<Rightarrow> Inl TypeError
                 | Some v \<Rightarrow>
                     redact_items (Some (py_replace t v (bracketed (pii_type item_pii))))
                       pii_list exclusions))
      else redact_items unmasked pii_list exclusions)"

text \<open>
  The text after one replacement step for \<open>item\<close>: every occurrence of the item's
  value, from left to right, becomes the bracketed \<open>pii_type\<close>.
\<close>

definition replace_item :: "string \<Rightarrow> pii_struct \<Rightarrow> string" where
  "replace_item s item =
     (case pii_value item of
        None \<Rightarrow> s
      | Some v \<Rightarrow> py_replace s v (bracketed (pii_type item)))"

text \<open>
  One row of the UDF: \<open>pii_list\<close> is \<open>None\<close> for a null \<open>pii_detected\<close>, and
  iterating over \<open>None\<close> raises \<open>TypeError\<close>; so does \<open>in\<close> on a null
  exclusion list, when it is reached.
\<close>

definition redact_row ::
  "string option \<Rightarrow> pii_struct list option \<Rightarrow> string option list option
     \<Rightarrow> py_error + string option" where
  "redact_row unmasked pii_list exclusions =
     (case pii_list of
        None \<Rightarrow> Inl TypeError
      | Some items \<Rightarrow>
          (case exclusions of
             None \<Rightarrow> (if items = [] then Inr unmasked else Inl TypeError)
           | Some excl \<Rightarrow> redact_items unmasked items excl))"

text \<open>
  The UDF over its three series: \<open>for i in range(len(unmasked_texts))\<close>, reading
  position \<open>i\<close> of each series (\<open>KeyError\<close> when a series is too short).
\<close>

definition series_at :: "'a list \<Rightarrow> nat \<Rightarrow> py_error + 'a" where
  "series_at xs i = (if i < length xs then Inr (xs ! i) else Inl KeyError)"

definition redact_text ::
  "string option list \<Rightarrow> pii_struct list option list \<Rightarrow> string option list option list
     \<Rightarrow> py_error + string option list" where
  "redact_text unmasked_texts pii_detected excluded_flags =
     map_result
       (\<lambda>i. bind (series_at unmasked_texts i)
          (\<lambda>unmasked. bind (series_at pii_detected i)
             (\<lambda>pii_list. bind (series_at excluded_flags i)
                (\<lambda>exclusions. redact_row unmasked pii_list exclusions))))
       [0..<length unmasked_texts]"

section \<open>Functions that repeat an external call\<close>

subsection \<open>\<open>retriable_execution\<close> (\<open>uc_tools_image_upload.py\<close>)\<close>

text \<open>
  \<open>str.strip()\<close> removes the white space at both ends (the ASCII white space; Python
  also strips the Unicode spaces).
\<close>

definition is_space :: "char \<Rightarrow> bool" where
  "is_space c = (of_char c \<in> {9, 10, 11, 12, 13, 28, 29, 30, 31, 32 :: nat})"

definition py_strip :: "string \<Rightarrow> string" where
  "py_strip s = rev (dropWhile is_space (rev (dropWhile is_space s)))"

definition process_sql_str :: "string \<Rightarrow> string" where
  "process_sql_str sql_str =
     py_strip (py_replace (py_replace sql_str ''```'' []) ''sql'' [])"

text \<open>
  The services the function calls: the text-to-SQL model on the schema's DDL
  (\<open>get_ddl_statements\<close> and \<open>sql_generator\<close>, here \<open>sql_generator\<close>), the
  SQL warehouse (\<open>execute_sql_statement\<close>; \<open>execute k s\<close> is the outcome of
  attempt number \<open>k\<close>, counted from 0, on the statement \<open>s\<close>), the model that
  repairs a failed statement (\<open>sql_rectifier\<close>) and the one that words the answer
  (\<open>sql_result_summarizer\<close>).  Each may raise.
\<close>

record sql_services =
  sql_generator :: "string \<Rightarrow> py_error + string"
  execute :: "nat \<Rightarrow> string \<Rightarrow> py_error + string"
  sql_rectifier :: "string \<Rightarrow> py_error \<Rightarrow> py_error + string"
  sql_result_summarizer :: "string \<Rightarrow> string \<Rightarrow> string \<Rightarrow> py_error + string"

datatype sql_event = Generate | Execute string | Rectify string | Summarize

text \<open>
  \<open>while num_try <= max_retries\<close>: a successful execution leaves the loop, a failed one
  asks for a repaired statement, counts the try and raises the error when the count
  reaches \<open>max_retries\<close>.  The loop yields the statement and \<open>results_string\<close>,
  which is unbound (\<open>None\<close>) when no execution succeeded.
\<close>

function retry_loop ::
  "sql_services \<Rightarrow> int \<Rightarrow> int \<Rightarrow> string \<Rightarrow> sql_event list
     \<Rightarrow> sql_event list \<times> (py_error + string \<times> string option)" where
  "retry_loop svc max_retries num_try sql_statement trace =
     (if num_try \<le> max_retries
      then (let sql_str = process_sql_str sql_statement
            in case execute svc (nat num_try) sql_str of
                 Inr results_string \<Rightarrow>
                   (trace @ [Execute sql_str], Inr (sql_statement, Some results_string))
               | Inl error \<Rightarrow>
                   (case sql_rectifier svc sql_statement error of
                      Inl e \<Rightarrow> (trace @ [Execute sql_str, Rectify sql_statement], Inl e)
                    | Inr repaired \<Rightarrow>
                        if num_try + 1 = max_retries
                        then (trace @ [Execute sql_str, Rectify sql_statement], Inl error)
                        else retry_loop svc max_retries (num_try + 1) repaired
                               (trace @ [Execute sql_str, Rectify sql_statement])))
      else (trace, Inr (sql_statement, None)))"
  by pat_completeness auto
termination
  by (relation "measure (\<lambda>(svc, max_retries, num_try, sql_statement, trace).
        nat (max_retries + 1 - num_try))") auto

declare retry_loop.simps [simp del]

text \<open>The number of executions \<open>retry_loop\<close> can still make from \<open>num_try\<close>.\<close>

definition tries_left :: "int \<Rightarrow> int \<Rightarrow> nat" where
  "tries_left max_retries num_try =
     (if num_try < max_retries then nat (max_retries - num_try)
      else if num_try = max_retries then 1 else 0)"

definition retriable_execution ::
  "sql_services \<Rightarrow> string \<Rightarrow> int \<Rightarrow> sql_event list \<times> (py_error + string)" where
  "retriable_execution svc question max_retries =
     (case sql_generator svc question of
        Inl e \<Rightarrow> ([Generate], Inl e)
      | Inr sql_statement \<Rightarrow>
          (case retry_loop svc max_retries 0 sql_statement [Generate] of
             (trace, Inl e) \<Rightarrow> (trace, Inl e)
           | (trace, Inr (final_statement, None)) \<Rightarrow> (trace, Inl NameError)
           | (trace, Inr (final_statement, Some results_string)) \<Rightarrow>
               (trace @ [Summarize],
                sql_result_summarizer svc question final_statement results_string)))"

fun is_execute :: "sql_event \<Rightarrow> bool" where
  "is_execute (Execute s) = True"
| "is_execute _ = False"

subsection \<open>\<open>wait_for_index_to_be_ready\<close> (\<open>structured-data-for-rag.py\<close>)\<close>

text \<open>\<open>d.get(key, default)\<close>; a value that is not a dict has no \<open>get\<close>.\<close>

fun py_get :: "json \<Rightarrow> string \<Rightarrow> json \<Rightarrow> py_error + json" where
  "py_get (JObj items) key dflt =
     Inr (case map_of items key of None \<Rightarrow> dflt | Some v \<Rightarrow> v)"
| "py_get _ key dflt = Inl AttributeError"

text \<open>\<open>s.upper()\<close> on the ASCII letters; a value that is not a string has no \<open>upper\<close>.\<close>

definition upper_char :: "char \<Rightarrow> char" where
  "upper_char c =
     (if 97 \<le> (of_char c :: nat) \<and> (of_char c :: nat) \<le> 122
      then char_of ((of_char c :: nat) - 32) else c)"

fun py_upper :: "json \<Rightarrow> py_error + string" where
  "py_upper (JStr s) = Inr (map upper_char s)"
| "py_upper _ = Inl AttributeError"

text \<open>
  The status of a described index:
  \<open>idx.get('status', idx.get('index_status', {}))\<close>, then
  \<open>.get('detailed_state', index_status.get('status', 'UNKNOWN')).upper()\<close>.
\<close>

definition index_state :: "json \<Rightarrow> py_error + string" where
  "index_state idx =
     bind (py_get idx ''index_status'' (JObj []))
       (\<lambda>fallback. bind (py_get idx ''status'' fallback)
          (\<lambda>index_status. bind (py_get index_status ''status'' (JStr ''UNKNOWN''))
             (\<lambda>plain. bind (py_get index_status ''detailed_state'' plain) py_upper)))"

datatype index_event = Describe | Wait nat | Notice | GetIndex

text \<open>
  \<open>for i in range(180)\<close>, over the values of \<open>i\<close> still to come.
  \<open>describe i\<close> is what \<open>vsc.get_index(...).describe()\<close> gives in iteration
  \<open>i\<close>.  The result is the exception raised, or \<open>None\<close> when the function returns.
\<close>

fun wait_loop ::
  "(nat \<Rightarrow> py_error + json) \<Rightarrow> nat list \<Rightarrow> index_event list
     \<Rightarrow> index_event list \<times> py_error option" where
  "wait_loop describe [] trace = (trace @ [GetIndex], Some IndexTimeout)"
| "wait_loop describe (i # is) trace =
     (case bind (describe i) index_state of
        Inl e \<Rightarrow> (trace @ [Describe], Some e)
      | Inr status \<Rightarrow>
          if occurs_in ''ONLINE'' status then (trace @ [Describe], None)
          else if occurs_in ''UNKNOWN'' status then (trace @ [Describe, Notice], None)
          else if occurs_in ''PROVISIONING'' status
          then wait_loop describe is
                 (trace @ [Describe] @ (if i mod 40 = 0 then [Notice] else []) @ [Wait 10])
          else (trace @ [Describe], Some IndexFailed))"

definition wait_for_index_to_be_ready ::
  "(nat \<Rightarrow> py_error + json) \<Rightarrow> index_event list \<times> py_error option" where
  "wait_for_index_to_be_ready describe = wait_loop describe [0..<180] []"

fun is_describe :: "index_event \<Rightarrow> bool" where
  "is_describe Describe = True"
| "is_describe _ = False"

fun is_post :: "event \<Rightarrow> bool" where
  "is_post (Post p) = True"
| "is_post _ = False"

section \<open>Concrete inputs\<close>

text \<open>
  Inputs at which the theorems below are evaluated: a system prompt and three responses
  of the serving endpoint, and two DataFrames of prompts.
\<close>

definition one_field_prompt :: "piece list" where
  "one_field_prompt = [Lit ''<s>[INST] '', Field ''instruction'', Lit '' [/INST]'']"

definition answer_response :: response where
  "answer_response =
     \<lparr>status_code = 200, content = ''ok'',
      body = Some (JObj [(''predictions'',
               JArr [JObj [(''candidates'', JArr [JObj [(''text'', JStr ''{}'')]])]])])\<rparr>"

definition timeout_response :: response where
  "timeout_response = \<lparr>status_code = 504, content = ''Gateway Timeout'', body = None\<rparr>"

definition no_candidate_response :: response where
  "no_candidate_response =
     \<lparr>status_code = 200, content = ''ok'',
      body = Some (JObj [(''predictions'', JArr [JObj [(''candidates'', JArr [])]])])\<rparr>"




text \<open>
  Two pages of query history and a failed request; Spark's cleaning is taken to keep
  the dicts as rows.
\<close>

definition first_page :: response where
  "first_page =
     \<lparr>status_code = 200, content = ''ok'',
      body = Some (JObj [(''next_page_token'', JStr ''t1''), (''has_next_page'', JBool True),
                         (''res'', JArr [JObj [(''query_id'', JStr ''q1''),
                                               (''is_final'', JBool True)]])])\<rparr>"

definition last_page :: response where
  "last_page =
     \<lparr>status_code = 200, content = ''ok'',
      body = Some (JObj [(''next_page_token'', JNull), (''has_next_page'', JBool False),
                         (''res'', JArr [JObj [(''query_id'', JStr ''q2''),
                                               (''is_final'', JBool False)]])])\<rparr>"

definition server_error :: response where
  "server_error = \<lparr>status_code = 500, content = ''Internal Server Error'', body = None\<rparr>"

definition rows_of_dicts :: "json list \<Rightarrow> py_error + qrow list" where
  "rows_of_dicts res = Inr (map (\<lambda>j. case j of JObj items \<Rightarrow> items | _ \<Rightarrow> []) res)"

definition failing_env :: qh_env where
  "failing_env =
     \<lparr>api = (\<lambda>k. if k = 0 then Inr first_page else Inr server_error),
      str_lower = (\<lambda>v. []), spark_clean = rows_of_dicts\<rparr>"

definition two_page_env :: qh_env where
  "two_page_env =
     \<lparr>api = (\<lambda>k. if k = 0 then Inr first_page else Inr last_page),
      str_lower = (\<lambda>v. []), spark_clean = rows_of_dicts\<rparr>"

text \<open>Detected items, and rows of the expanded view.\<close>

definition name_item :: pii_struct where
  "name_item = \<lparr>pii_type = Some ''NAME'', pii_value = Some ''Alice''\<rparr>"

definition phone_item :: pii_struct where
  "phone_item = \<lparr>pii_type = Some ''PHONE'', pii_value = Some ''555''\<rparr>"

definition first_name_item :: pii_struct where
  "first_name_item = \<lparr>pii_type = Some ''FIRST_NAME'', pii_value = Some ''John''\<rparr>"

definition full_name_item :: pii_struct where
  "full_name_item = \<lparr>pii_type = Some ''NAME'', pii_value = Some ''John Smith''\<rparr>"

definition view_row :: "string option \<Rightarrow> string \<Rightarrow> string \<Rightarrow> expanded_row" where
  "view_row txt ty v =
     \<lparr>pii_type = Some ty, pii_value = Some v, message_id = Some ''m1'', unmasked_text = txt,
      departments = Some [''Customer Support''], prompt_profiling = Some ''profile'',
      prompt_categorisation = Some ''categorise''\<rparr>"

definition found_row :: expanded_row where
  "found_row = view_row (Some ''Call Alice now'') ''NAME'' ''Alice''"

definition absent_row :: expanded_row where
  "absent_row = view_row (Some ''Call Alice now'') ''NAME'' ''Bob''"

definition placeholder_row :: expanded_row where
  "placeholder_row = view_row (Some ''Call Alice now'') ''EMAIL'' ''...''"

definition null_text_row :: expanded_row where
  "null_text_row = view_row None ''NAME'' ''Alice''"

text \<open>
  A warehouse that rejects the first statement and accepts the repaired one, and an index
  that is ready at the third look.
\<close>

definition flaky_services :: sql_services where
  "flaky_services =
     \<lparr>sql_generator = (\<lambda>question. Inr ''```sql SELECT nme FROM t```''),
      execute = (\<lambda>k s. if k = 0 then Inl (SqlError ''UNRESOLVED_COLUMN'') else Inr '' name=a''),
      sql_rectifier = (\<lambda>input_sql error. Inr ''SELECT name FROM t''),
      sql_result_summarizer = (\<lambda>question s relevant_rows. Inr ''a'')\<rparr>"

definition provisioning :: json where
  "provisioning = JObj [(''status'', JObj [(''detailed_state'', JStr ''provisioning_index'')])]"

definition online :: json where
  "online = JObj [(''status'', JObj [(''detailed_state'', JStr ''online_no_pending_update'')])]"

definition slow_index :: "nat \<Rightarrow> py_error + json" where
  "slow_index i = (if i < 2 then Inr provisioning else Inr online)"

definition endpoints_json :: json where
  "endpoints_json =
     JArr [JObj [(''name'', JStr ''shared''), (''enable_photon'', JBool True), (''size'', JNum 2)],
           JObj [(''name'', JStr ''etl''), (''enable_serverless_compute'', JBool False)]]"

section \<open>Properties of \<open>pii_bot\<close>\<close>

lemma map_result_Inr_iff:
  "map_result f xs = Inr ys \<longleftrightarrow> list_all2 (\<lambda>x y. f x = Inr y) xs ys"
proof (induction xs arbitrary: ys)
  case Nil
  then show ?case by auto
next
  case (Cons x xs)
  show ?case
  proof (cases "f x")
    case (Inl e)
    then show ?thesis by (auto simp: list_all2_Cons1)
  next
    case (Inr y)
    then show ?thesis
      using Cons.IH by (cases "map_result f xs") (auto simp: list_all2_Cons1)
  qed
qed

lemma first_candidate_text_iff:
  "first_candidate_text p = Inr t \<longleftrightarrow> has_first_text p t"
proof (cases p)
  case (JObj items)
  show ?thesis
  proof (cases "map_of items ''candidates''")
    case None
    with JObj show ?thesis by (simp add: first_candidate_text_def bind_def)
  next
    case (Some cands)
    have "bind (py_getitem0 cands) (\<lambda>candidate. py_getitem candidate ''text'') = Inr t
        \<longleftrightarrow> (case cands of JArr (JObj c # cs) \<Rightarrow> map_of c ''text'' = Some t | _ \<Rightarrow> False)"
      by (cases cands rule: py_getitem0.cases)
        (auto simp: bind_def split: json.splits list.splits option.splits)
    with JObj Some show ?thesis by (simp add: first_candidate_text_def bind_def)
  qed
qed (simp_all add: first_candidate_text_def bind_def)

text \<open>
  Claim C8.  Every HTTP POST of \<open>pii_bot\<close> comes right after a sleep of
  \<open>WAIT_SECONDS = 5\<close> seconds in the same invocation: the trace of an invocation is
  empty when formatting a prompt raises, and is the sleep followed by the one POST
  otherwise, whatever the endpoint answers.
\<close>

theorem pii_bot_sleeps_before_post:
  "posts_delayed WAIT_SECONDS (fst (pii_bot system_prompt endpoint prompts))
   \<and> WAIT_SECONDS = 5
   \<and> fst (pii_bot system_prompt endpoint prompts) =
       (case map_result (format_instruction system_prompt) prompts of
          Inl e \<Rightarrow> []
        | Inr formatted_prompts \<Rightarrow> [Sleep 5, Post formatted_prompts])"
  by (simp add: pii_bot_def WAIT_SECONDS_def split: sum.split)

text \<open>
  Claim C2, as amended.  When the endpoint answers with a status code other than 200,
  \<open>pii_bot\<close> raises (\<open>RequestFailed\<close> with the status and the text) and returns no
  series.  When the status code is 200 and the body is a dict whose \<open>predictions\<close>
  is a list, \<open>pii_bot\<close> returns a series exactly when every prediction has a first
  candidate with a \<open>text\<close>, and the series then holds these texts in order;
  when some prediction has none, it raises.
\<close>

theorem pii_bot_status:
  assumes fmt: "map_result (format_instruction system_prompt) prompts = Inr formatted"
      and resp: "endpoint formatted = Inr r"
  shows "(status_code r \<noteq> 200 \<longrightarrow>
            snd (pii_bot system_prompt endpoint prompts)
              = Inl (RequestFailed (status_code r) (content r)))
       \<and> (status_code r = 200 \<and> body r = Some (JObj items)
            \<and> map_of items ''predictions'' = Some (JArr predictions) \<longrightarrow>
            (snd (pii_bot system_prompt endpoint prompts) = Inr texts
               \<longleftrightarrow> list_all2 has_first_text predictions texts)
            \<and> ((\<nexists>ts. list_all2 has_first_text predictions ts) \<longrightarrow>
                 (\<exists>e. snd (pii_bot system_prompt endpoint prompts) = Inl e)))"
proof (intro conjI impI)
  assume "status_code r \<noteq> 200"
  then show "snd (pii_bot system_prompt endpoint prompts)
      = Inl (RequestFailed (status_code r) (content r))"
    using fmt resp by (simp add: pii_bot_def bind_def read_predictions_def)
next
  assume ok: "status_code r = 200 \<and> body r = Some (JObj items)
            \<and> map_of items ''predictions'' = Some (JArr predictions)"
  then have res: "snd (pii_bot system_prompt endpoint prompts)
      = map_result first_candidate_text predictions"
    using fmt resp by (simp add: pii_bot_def bind_def read_predictions_def)
  show iff: "snd (pii_bot system_prompt endpoint prompts) = Inr texts
      \<longleftrightarrow> list_all2 has_first_text predictions texts" for texts
    by (simp add: res map_result_Inr_iff first_candidate_text_iff)
  assume none: "\<nexists>ts. list_all2 has_first_text predictions ts"
  show "\<exists>e. snd (pii_bot system_prompt endpoint prompts) = Inl e"
  proof (cases "snd (pii_bot system_prompt endpoint prompts)")
    case (Inl e)
    then show ?thesis by blast
  next
    case (Inr ts)
    then show ?thesis using iff none by blast
  qed
qed

theorem pii_bot_status_witness:
  "map_result (format_instruction one_field_prompt) [''Hi''] = Inr [''<s>[INST] Hi [/INST]'']
   \<and> snd (pii_bot one_field_prompt (\<lambda>p. Inr timeout_response) [''Hi''])
       = Inl (RequestFailed 504 ''Gateway Timeout'')
   \<and> snd (pii_bot one_field_prompt (\<lambda>p. Inr answer_response) [''Hi'']) = Inr [JStr ''{}'']"
proof -
  have fmt: "map_result (format_instruction one_field_prompt) [''Hi''] = Inr [''<s>[INST] Hi [/INST]'']"
    by (simp add: one_field_prompt_def)
  have t: "snd (pii_bot one_field_prompt (\<lambda>p. Inr timeout_response) [''Hi''])
       = Inl (RequestFailed 504 ''Gateway Timeout'')"
    using pii_bot_status [OF fmt, of "\<lambda>p. Inr timeout_response" timeout_response]
    by (simp add: timeout_response_def)
  have a: "snd (pii_bot one_field_prompt (\<lambda>p. Inr answer_response) [''Hi'']) = Inr [JStr ''{}'']"
    using pii_bot_status [OF fmt, of "\<lambda>p. Inr answer_response" answer_response
        "[(''predictions'', JArr [JObj [(''candidates'', JArr [JObj [(''text'', JStr ''{}'')]])]])]"
        "[JObj [(''candidates'', JArr [JObj [(''text'', JStr ''{}'')]])]]" "[JStr ''{}'']"]
    by (simp add: answer_response_def)
  show ?thesis using fmt t a by simp
qed

text \<open>
  Claim C2 as stated fails: a response with status code 200 whose prediction has an empty
  list of candidates makes \<open>pii_bot\<close> raise \<open>IndexError\<close> instead of returning a
  series.
\<close>

theorem pii_bot_status_200_raises:
  "status_code no_candidate_response = 200
   \<and> snd (pii_bot one_field_prompt (\<lambda>p. Inr no_candidate_response) [''Hi'']) = Inl IndexError"
  by (simp add: no_candidate_response_def pii_bot_def one_field_prompt_def bind_def
      read_predictions_def first_candidate_text_def)

section \<open>Properties of \<open>batch_process_prompts\<close>\<close>

lemma columns_filter_df [simp]: "columns (filter_df p df) = columns df"
  by (simp add: filter_df_def)

lemma rows_filter_df [simp]: "rows (filter_df p df) = filter p (rows df)"
  by (simp add: filter_df_def)





lemma cell_of_update_same [simp]: "cell_of (AList.update k v r) k = v"
  by (simp add: cell_of_def update_conv')





























section \<open>Properties of the query-history loop\<close>

lemma fetch_page_shape:
  "(\<exists>e q. fst (fetch_page env st) = Some e
        \<and> queries_table (snd (fetch_page env st)) = queries_table st
        \<and> qh_trace (snd (fetch_page env st)) = qh_trace st @ [Get q])
   \<or> (\<exists>r page q. fst (fetch_page env st) = None
        \<and> api env (pages_fetched st) = Inr r \<and> status_code r = 200
        \<and> qh_trace (snd (fetch_page env st)) = qh_trace st @ [Get q, Write page])"
  by (simp add: fetch_page_def Let_def split: sum.split option.split)

lemma fetch_page_not_200:
  "api env (pages_fetched st) = Inr r \<Longrightarrow> status_code r \<noteq> 200 \<Longrightarrow>
   fst (fetch_page env st) = Some (ApiError (content r))"
  by (simp add: fetch_page_def Let_def)

lemma fetch_page_gets:
  "length (filter is_get (qh_trace (snd (fetch_page env st)))) =
     Suc (length (filter is_get (qh_trace st)))"
  using fetch_page_shape [of env st] by auto


lemma fetch_loop_stop: "\<not> truthy (has_next_page st) \<Longrightarrow> fetch_loop env st = (None, st)"
  by (subst fetch_loop.simps) simp

lemma fetch_loop_bound:
  assumes "pages_fetched st \<le> MAX_PAGES_PER_RUN"
  shows "pages_fetched (snd (fetch_loop env st)) \<le> MAX_PAGES_PER_RUN
       \<and> length (filter is_get (qh_trace (snd (fetch_loop env st)))) + pages_fetched st
           = length (filter is_get (qh_trace st)) + pages_fetched (snd (fetch_loop env st))
       \<and> (fst (fetch_loop env st) = None \<longrightarrow>
            \<not> truthy (has_next_page (snd (fetch_loop env st)))
            \<or> pages_fetched (snd (fetch_loop env st)) = MAX_PAGES_PER_RUN)"
  using assms
proof (induction env st rule: fetch_loop.induct)
  case (1 env st)
  show ?case
  proof (cases "truthy (has_next_page st) \<and> pages_fetched st < MAX_PAGES_PER_RUN")
    case False
    then have "fetch_loop env st = (None, st)"
      by (subst fetch_loop.simps) auto
    then show ?thesis using False "1.prems" by auto
  next
    case True
    obtain err st' where page: "fetch_page env st = (err, st')"
      by (cases "fetch_page env st")
    have pf: "pages_fetched st' = pages_fetched st + 1"
      using fetch_page_pages_fetched [of env st] page by simp
    have gets: "length (filter is_get (qh_trace st')) = Suc (length (filter is_get (qh_trace st)))"
      using fetch_page_gets [of env st] page by simp
    show ?thesis
    proof (cases err)
      case (Some e)
      have "fetch_loop env st = (Some e, st')"
        using True page Some by (subst fetch_loop.simps) simp
      then show ?thesis using pf gets True by simp
    next
      case None
      have unfold: "fetch_loop env st = fetch_loop env st'"
        using True page None by (subst fetch_loop.simps) simp
      have "pages_fetched st' \<le> MAX_PAGES_PER_RUN" using pf True by simp
      from "1.IH" [OF True page [symmetric] None this]
      show ?thesis unfolding unfold using pf gets by simp
    qed
  qed
qed

lemma fetch_loop_raised:
  assumes "fetch_loop env st = (Some e, final)"
  shows "\<exists>st0. (page_done env)\<^sup>*\<^sup>* st st0 \<and> fetch_page env st0 = (Some e, final)"
  using assms
proof (induction env st rule: fetch_loop.induct)
  case (1 env st)
  have go: "truthy (has_next_page st) \<and> pages_fetched st < MAX_PAGES_PER_RUN"
    using "1.prems" by (subst (asm) fetch_loop.simps) (simp split: if_splits)
  obtain err st' where page: "fetch_page env st = (err, st')"
    by (cases "fetch_page env st")
  show ?case
  proof (cases err)
    case (Some e')
    have "fetch_loop env st = (Some e', st')"
      using go page Some by (subst fetch_loop.simps) simp
    with "1.prems" page Some show ?thesis by auto
  next
    case None
    have "fetch_loop env st = fetch_loop env st'"
      using go page None by (subst fetch_loop.simps) simp
    with "1.prems" have "fetch_loop env st' = (Some e, final)" by simp
    from "1.IH" [OF go page [symmetric] None this]
    obtain st0 where "(page_done env)\<^sup>*\<^sup>* st' st0" "fetch_page env st0 = (Some e, final)"
      by blast
    moreover have "page_done env st st'"
      using go page None by (simp add: page_done_def)
    ultimately show ?thesis
      by (meson converse_rtranclp_into_rtranclp)
  qed
qed

lemma fetch_page_reports:
  "fst (fetch_page env st) = None \<longrightarrow>
   reported_has_next_page env (pages_fetched st) = Some (has_next_page (snd (fetch_page env st)))"
  by (simp add: fetch_page_def reported_has_next_page_def Let_def split: sum.split option.split)

lemma fetch_page_reported:
  "fst (fetch_page env st) = None \<Longrightarrow>
   reported_has_next_page env (pages_fetched st) = Some (has_next_page (snd (fetch_page env st)))"
  using fetch_page_reports by blast

lemma fetch_loop_pages_mono:
  "pages_fetched st \<le> pages_fetched (snd (fetch_loop env st))"
proof (induction env st rule: fetch_loop.induct)
  case (1 env st)
  show ?case
  proof (cases "truthy (has_next_page st) \<and> pages_fetched st < MAX_PAGES_PER_RUN")
    case False
    then have "fetch_loop env st = (None, st)" by (subst fetch_loop.simps) auto
    then show ?thesis by simp
  next
    case True
    obtain err st' where page: "fetch_page env st = (err, st')"
      by (cases "fetch_page env st")
    have pf: "pages_fetched st' = pages_fetched st + 1"
      using fetch_page_pages_fetched [of env st] page by simp
    show ?thesis
    proof (cases err)
      case (Some e)
      have "fetch_loop env st = (Some e, st')"
        using True page Some by (subst fetch_loop.simps) simp
      then show ?thesis using pf by simp
    next
      case None
      have "fetch_loop env st = fetch_loop env st'"
        using True page None by (subst fetch_loop.simps) simp
      with "1.IH" [OF True page [symmetric] None] pf show ?thesis by simp
    qed
  qed
qed

lemma fetch_loop_moved:
  assumes "pages_fetched st < pages_fetched (snd (fetch_loop env st))"
  shows "truthy (has_next_page st)"
proof (rule ccontr)
  assume "\<not> truthy (has_next_page st)"
  then have "fetch_loop env st = (None, st)" by (rule fetch_loop_stop)
  with assms show False by simp
qed

lemma fetch_loop_still:
  assumes "pages_fetched (snd (fetch_loop env st)) = pages_fetched st"
  shows "fetch_loop env st = (None, st)"
proof (cases "truthy (has_next_page st) \<and> pages_fetched st < MAX_PAGES_PER_RUN")
  case False
  then show ?thesis by (subst fetch_loop.simps) auto
next
  case True
  obtain err st' where page: "fetch_page env st = (err, st')"
    by (cases "fetch_page env st")
  have pf: "pages_fetched st' = pages_fetched st + 1"
    using fetch_page_pages_fetched [of env st] page by simp
  have "pages_fetched st' \<le> pages_fetched (snd (fetch_loop env st))"
  proof (cases err)
    case (Some e)
    have "fetch_loop env st = (Some e, st')"
      using True page Some by (subst fetch_loop.simps) simp
    then show ?thesis by simp
  next
    case None
    have "fetch_loop env st = fetch_loop env st'"
      using True page None by (subst fetch_loop.simps) simp
    then show ?thesis using fetch_loop_pages_mono [of st' env] by simp
  qed
  with pf assms show ?thesis by simp
qed

lemma fetch_loop_reports:
  "(\<forall>k. pages_fetched st \<le> k \<and> Suc k < pages_fetched (snd (fetch_loop env st)) \<longrightarrow>
        (\<exists>h. reported_has_next_page env k = Some h \<and> truthy h))
   \<and> (fst (fetch_loop env st) = None
        \<and> pages_fetched st < pages_fetched (snd (fetch_loop env st)) \<longrightarrow>
        reported_has_next_page env (pages_fetched (snd (fetch_loop env st)) - 1)
          = Some (has_next_page (snd (fetch_loop env st))))"
proof (induction env st rule: fetch_loop.induct)
  case (1 env st)
  show ?case
  proof (cases "truthy (has_next_page st) \<and> pages_fetched st < MAX_PAGES_PER_RUN")
    case False
    then have "fetch_loop env st = (None, st)" by (subst fetch_loop.simps) auto
    then show ?thesis by auto
  next
    case True
    obtain err st' where page: "fetch_page env st = (err, st')"
      by (cases "fetch_page env st")
    have pf: "pages_fetched st' = pages_fetched st + 1"
      using fetch_page_pages_fetched [of env st] page by simp
    show ?thesis
    proof (cases err)
      case (Some e)
      have "fetch_loop env st = (Some e, st')"
        using True page Some by (subst fetch_loop.simps) simp
      then show ?thesis using pf by auto
    next
      case None
      let ?final = "snd (fetch_loop env st')"
      have unfold: "fetch_loop env st = fetch_loop env st'"
        using True page None by (subst fetch_loop.simps) simp
      have rep: "reported_has_next_page env (pages_fetched st) = Some (has_next_page st')"
        using fetch_page_reported [of env st] page None by simp
      note IH = "1.IH" [OF True page [symmetric] None]
      have first: "\<exists>h. reported_has_next_page env k = Some h \<and> truthy h"
        if "pages_fetched st \<le> k" and "Suc k < pages_fetched ?final" for k
      proof (cases "k = pages_fetched st")
        case True
        then have "pages_fetched st' < pages_fetched ?final" using that pf by simp
        then have "truthy (has_next_page st')" by (rule fetch_loop_moved)
        with rep True show ?thesis by simp
      next
        case False
        then have "pages_fetched st' \<le> k" using that pf by simp
        with IH that show ?thesis by blast
      qed
      have last: "reported_has_next_page env (pages_fetched ?final - 1) = Some (has_next_page ?final)"
        if "fst (fetch_loop env st') = None"
      proof (cases "pages_fetched st' < pages_fetched ?final")
        case True
        with IH that show ?thesis by blast
      next
        case False
        then have "pages_fetched ?final = pages_fetched st'"
          using fetch_loop_pages_mono [of st' env] by simp
        then have "fetch_loop env st' = (None, st')" by (rule fetch_loop_still)
        then show ?thesis using rep pf by simp
      qed
      show ?thesis unfolding unfold using first last by blast
    qed
  qed
qed

lemma fetch_loop_progress:
  assumes "truthy (has_next_page st) \<and> pages_fetched st < MAX_PAGES_PER_RUN"
  shows "pages_fetched st < pages_fetched (snd (fetch_loop env st))"
proof (rule ccontr)
  assume "\<not> pages_fetched st < pages_fetched (snd (fetch_loop env st))"
  then have "pages_fetched (snd (fetch_loop env st)) = pages_fetched st"
    using fetch_loop_pages_mono [of st env] by simp
  then have still: "fetch_loop env st = (None, st)" by (rule fetch_loop_still)
  obtain err st' where page: "fetch_page env st = (err, st')"
    by (cases "fetch_page env st")
  have pf: "pages_fetched st' = pages_fetched st + 1"
    using fetch_page_pages_fetched [of env st] page by simp
  show False
  proof (cases err)
    case (Some e)
    have "fetch_loop env st = (Some e, st')"
      using assms page Some by (subst fetch_loop.simps) simp
    with still show False by simp
  next
    case None
    have "fetch_loop env st = fetch_loop env st'"
      using assms page None by (subst fetch_loop.simps) simp
    with still have "pages_fetched (snd (fetch_loop env st')) = pages_fetched st" by simp
    with fetch_loop_pages_mono [of st' env] pf show False by simp
  qed
qed

lemmas qh_eval = query_history_run_def fetch_page_def Let_def failing_env_def two_page_env_def
  first_page_def last_page_def server_error_def rows_of_dicts_def bind_def convert_booleans_def
  get_boolean_keys_def py_str_lower_def write_page_def check_table_exist_def delta_merge_def
  id_matches_def MAX_PAGES_PER_RUN_def fetch_loop.simps

lemma failing_run:
  "query_history_run failing_env None =
     (Some (ApiError ''Internal Server Error''),
      \<lparr>next_page_token = JStr ''t1'', has_next_page = JBool True, pages_fetched = 2,
       queries_table = Some [[(''query_id'', JStr ''q1''), (''is_final'', JStr ''true'')]],
       qh_trace = [Get WithFilter,
                   Write [[(''query_id'', JStr ''q1''), (''is_final'', JStr ''true'')]],
                   Get (WithPageToken (JStr ''t1''))]\<rparr>)"
  by (simp add: qh_eval)

lemma two_page_run:
  "query_history_run two_page_env None =
     (None,
      \<lparr>next_page_token = JNull, has_next_page = JBool False, pages_fetched = 2,
       queries_table = Some [[(''query_id'', JStr ''q1''), (''is_final'', JStr ''true'')],
                             [(''query_id'', JStr ''q2''), (''is_final'', JStr ''false'')]],
       qh_trace = [Get WithFilter,
                   Write [[(''query_id'', JStr ''q1''), (''is_final'', JStr ''true'')]],
                   Get (WithPageToken (JStr ''t1'')),
                   Write [[(''query_id'', JStr ''q2''), (''is_final'', JStr ''false'')]]]\<rparr>)"
  by (simp add: qh_eval)

text \<open>
  Claim C6.  A page is written (saved or merged) into the queries table only after its
  response had status code 200.  A response with any other status raises
  \<open>ApiError\<close>; whenever an iteration raises, the table is the one the iteration
  started with and no write was made; and when the loop ends with an exception, the
  table is the one reached by the fully processed earlier pages.
\<close>

theorem query_history_page_atomic:
  "(api env (pages_fetched st) = Inr r \<and> status_code r \<noteq> 200 \<longrightarrow>
      fst (fetch_page env st) = Some (ApiError (content r)))
   \<and> (fst (fetch_page env st) \<noteq> None \<longrightarrow>
        queries_table (snd (fetch_page env st)) = queries_table st
        \<and> filter is_write (qh_trace (snd (fetch_page env st))) = filter is_write (qh_trace st))
   \<and> (fst (fetch_page env st) = None \<longrightarrow>
        (\<exists>r'. api env (pages_fetched st) = Inr r' \<and> status_code r' = 200))
   \<and> (fetch_loop env st = (Some e, final) \<longrightarrow>
        (\<exists>st0. (page_done env)\<^sup>*\<^sup>* st st0 \<and> fst (fetch_page env st0) = Some e
               \<and> queries_table final = queries_table st0))"
proof (intro conjI impI)
  assume "api env (pages_fetched st) = Inr r \<and> status_code r \<noteq> 200"
  then show "fst (fetch_page env st) = Some (ApiError (content r))"
    by (simp add: fetch_page_not_200)
next
  assume "fst (fetch_page env st) \<noteq> None"
  then show "queries_table (snd (fetch_page env st)) = queries_table st"
    using fetch_page_shape [of env st] by auto
next
  assume "fst (fetch_page env st) \<noteq> None"
  then show "filter is_write (qh_trace (snd (fetch_page env st))) = filter is_write (qh_trace st)"
    using fetch_page_shape [of env st] by auto
next
  assume "fst (fetch_page env st) = None"
  then show "\<exists>r'. api env (pages_fetched st) = Inr r' \<and> status_code r' = 200"
    using fetch_page_shape [of env st] by auto
next
  assume "fetch_loop env st = (Some e, final)"
  then obtain st0 where reach: "(page_done env)\<^sup>*\<^sup>* st st0"
    and page: "fetch_page env st0 = (Some e, final)"
    using fetch_loop_raised by blast
  have "queries_table (snd (fetch_page env st0)) = queries_table st0"
    using fetch_page_shape [of env st0] page by auto
  with reach page
  show "\<exists>st0. (page_done env)\<^sup>*\<^sup>* st st0 \<and> fst (fetch_page env st0) = Some e
               \<and> queries_table final = queries_table st0"
    by auto
qed

theorem query_history_page_atomic_witness:
  "api failing_env 1 = Inr server_error \<and> status_code server_error \<noteq> 200
   \<and> fst (query_history_run failing_env None) = Some (ApiError ''Internal Server Error'')
   \<and> (\<exists>st0. (page_done failing_env)\<^sup>*\<^sup>*
               \<lparr>next_page_token = JNull, has_next_page = JBool True, pages_fetched = 0,
                queries_table = None, qh_trace = []\<rparr> st0
            \<and> queries_table st0
                = Some [[(''query_id'', JStr ''q1''), (''is_final'', JStr ''true'')]]
            \<and> queries_table (snd (query_history_run failing_env None)) = queries_table st0)"
proof -
  let ?init = "\<lparr>next_page_token = JNull, has_next_page = JBool True, pages_fetched = 0,
                queries_table = None, qh_trace = []\<rparr>"
  let ?final = "snd (query_history_run failing_env None)"
  have run: "fetch_loop failing_env ?init = (Some (ApiError ''Internal Server Error''), ?final)"
    using failing_run by (simp add: query_history_run_def)
  have tbl: "queries_table ?final = Some [[(''query_id'', JStr ''q1''), (''is_final'', JStr ''true'')]]"
    using failing_run by simp
  from query_history_page_atomic [of failing_env ?init server_error "ApiError ''Internal Server Error''" ?final] run
  obtain st0 where "(page_done failing_env)\<^sup>*\<^sup>* ?init st0"
    "queries_table ?final = queries_table st0"
    by blast
  then show ?thesis
    using failing_run tbl by (auto simp: failing_env_def server_error_def)
qed

text \<open>
  Claim C7.  The page-fetch loop terminates for every sequence of API responses
  (\<open>fetch_loop\<close> is a total function): it runs at least one and at most
  \<open>MAX_PAGES_PER_RUN = 500\<close> iterations, one GET each.  It stops as soon as a
  response reports \<open>has_next_page = false\<close>: a page that completes leaves in the
  state exactly what its response reported, every response before the last request
  reported a true \<open>has_next_page\<close>, so when the response to request number \<open>k\<close>
  (counted from 0) reports a false one, no more than \<open>k + 1\<close> requests are made;
  and a run that ends without an exception ends because its last response reported no
  next page or because 500 pages were fetched.
\<close>

theorem query_history_loop_terminates:
  "pages_fetched (snd (query_history_run env table)) \<le> MAX_PAGES_PER_RUN
   \<and> MAX_PAGES_PER_RUN = 500
   \<and> length (filter is_get (qh_trace (snd (query_history_run env table))))
       = pages_fetched (snd (query_history_run env table))
   \<and> (fst (query_history_run env table) = None \<longrightarrow>
        \<not> truthy (has_next_page (snd (query_history_run env table)))
        \<or> pages_fetched (snd (query_history_run env table)) = MAX_PAGES_PER_RUN)
   \<and> (\<not> truthy (has_next_page st) \<longrightarrow> fetch_loop env st = (None, st))
   \<and> (fst (fetch_page env st) = None \<longrightarrow>
        reported_has_next_page env (pages_fetched st)
          = Some (has_next_page (snd (fetch_page env st))))
   \<and> 1 \<le> pages_fetched (snd (query_history_run env table))
   \<and> (\<forall>k. Suc k < pages_fetched (snd (query_history_run env table)) \<longrightarrow>
        (\<exists>h. reported_has_next_page env k = Some h \<and> truthy h))
   \<and> (\<forall>k h. reported_has_next_page env k = Some h \<and> \<not> truthy h \<longrightarrow>
        pages_fetched (snd (query_history_run env table)) \<le> Suc k)
   \<and> (fst (query_history_run env table) = None \<longrightarrow>
        (\<exists>h. reported_has_next_page env (pages_fetched (snd (query_history_run env table)) - 1)
               = Some h
             \<and> has_next_page (snd (query_history_run env table)) = h
             \<and> (\<not> truthy h
                  \<or> pages_fetched (snd (query_history_run env table)) = MAX_PAGES_PER_RUN)))"
proof -
  let ?init = "\<lparr>next_page_token = JNull, has_next_page = JBool True, pages_fetched = 0,
                queries_table = table, qh_trace = []\<rparr>"
  let ?final = "snd (fetch_loop env ?init)"
  have run: "query_history_run env table = fetch_loop env ?init"
    by (simp add: query_history_run_def)
  have "pages_fetched ?init \<le> MAX_PAGES_PER_RUN" by simp
  from fetch_loop_bound [OF this, of env]
  have bound: "pages_fetched ?final \<le> MAX_PAGES_PER_RUN"
    and gets: "length (filter is_get (qh_trace ?final)) = pages_fetched ?final"
    and ended: "fst (fetch_loop env ?init) = None \<longrightarrow>
        \<not> truthy (has_next_page ?final) \<or> pages_fetched ?final = MAX_PAGES_PER_RUN"
    by simp_all
  have "truthy (has_next_page ?init) \<and> pages_fetched ?init < MAX_PAGES_PER_RUN"
    by (simp add: MAX_PAGES_PER_RUN_def)
  then have "pages_fetched ?init < pages_fetched ?final"
    by (rule fetch_loop_progress)
  then have moved: "0 < pages_fetched ?final" by simp
  have earlier: "\<exists>h. reported_has_next_page env k = Some h \<and> truthy h"
    if "Suc k < pages_fetched ?final" for k
    using fetch_loop_reports [of ?init env] that by simp
  have stops: "pages_fetched ?final \<le> Suc k"
    if "reported_has_next_page env k = Some h \<and> \<not> truthy h" for k h
  proof (rule ccontr)
    assume "\<not> pages_fetched ?final \<le> Suc k"
    then have "Suc k < pages_fetched ?final" by simp
    from earlier [OF this] that show False by simp
  qed
  have last: "reported_has_next_page env (pages_fetched ?final - 1) = Some (has_next_page ?final)"
    if "fst (fetch_loop env ?init) = None"
    using fetch_loop_reports [of ?init env] that moved by simp
  have final: "\<exists>h. reported_has_next_page env (pages_fetched ?final - 1) = Some h
             \<and> has_next_page ?final = h
             \<and> (\<not> truthy h \<or> pages_fetched ?final = MAX_PAGES_PER_RUN)"
    if "fst (fetch_loop env ?init) = None"
    using last [OF that] ended that by simp
  show ?thesis
    unfolding run
  proof (intro conjI)
    show "pages_fetched ?final \<le> MAX_PAGES_PER_RUN" by (rule bound)
    show "MAX_PAGES_PER_RUN = 500" by (simp add: MAX_PAGES_PER_RUN_def)
    show "length (filter is_get (qh_trace ?final)) = pages_fetched ?final" by (rule gets)
    show "fst (fetch_loop env ?init) = None \<longrightarrow>
        \<not> truthy (has_next_page ?final) \<or> pages_fetched ?final = MAX_PAGES_PER_RUN"
      by (rule ended)
    show "\<not> truthy (has_next_page st) \<longrightarrow> fetch_loop env st = (None, st)"
      using fetch_loop_stop by blast
    show "fst (fetch_page env st) = None \<longrightarrow>
        reported_has_next_page env (pages_fetched st)
          = Some (has_next_page (snd (fetch_page env st)))"
      by (rule fetch_page_reports)
    show "1 \<le> pages_fetched ?final" using moved by simp
    show "\<forall>k. Suc k < pages_fetched ?final \<longrightarrow>
        (\<exists>h. reported_has_next_page env k = Some h \<and> truthy h)"
      using earlier by blast
    show "\<forall>k h. reported_has_next_page env k = Some h \<and> \<not> truthy h \<longrightarrow>
        pages_fetched ?final \<le> Suc k"
      using stops by blast
    show "fst (fetch_loop env ?init) = None \<longrightarrow>
        (\<exists>h. reported_has_next_page env (pages_fetched ?final - 1) = Some h
             \<and> has_next_page ?final = h
             \<and> (\<not> truthy h \<or> pages_fetched ?final = MAX_PAGES_PER_RUN))"
      using final by blast
  qed
qed

theorem query_history_loop_terminates_witness:
  "fst (query_history_run two_page_env None) = None
   \<and> \<not> truthy (has_next_page (snd (query_history_run two_page_env None)))
   \<and> pages_fetched (snd (query_history_run two_page_env None)) = 2
   \<and> length (filter is_get (qh_trace (snd (query_history_run two_page_env None)))) = 2
   \<and> fetch_loop two_page_env (snd (query_history_run two_page_env None))
       = (None, snd (query_history_run two_page_env None))
   \<and> reported_has_next_page two_page_env 0 = Some (JBool True)
   \<and> reported_has_next_page two_page_env 1 = Some (JBool False)
   \<and> pages_fetched (snd (query_history_run two_page_env None)) \<le> Suc 1"
proof -
  let ?final = "snd (query_history_run two_page_env None)"
  note inst = query_history_loop_terminates [of two_page_env None ?final]
  have r0: "reported_has_next_page two_page_env 0 = Some (JBool True)"
    by (simp add: reported_has_next_page_def two_page_env_def first_page_def)
  have r1: "reported_has_next_page two_page_env 1 = Some (JBool False)"
    by (simp add: reported_has_next_page_def two_page_env_def last_page_def)
  have "reported_has_next_page two_page_env 1 = Some (JBool False) \<and> \<not> truthy (JBool False)"
    using r1 by simp
  with inst have le: "pages_fetched ?final \<le> Suc 1" by blast
  have stop: "\<not> truthy (has_next_page ?final)" using two_page_run by simp
  with inst have "fetch_loop two_page_env ?final = (None, ?final)" by blast
  then show ?thesis
    using two_page_run r0 r1 le by simp
qed

section \<open>Properties of quarantining and cleansing\<close>

lemma instr_pos_le_length: "instr_pos s sub \<le> Suc (length s)"
  by (induction s) (auto split: nat.splits)

lemma where_true_quarantine:
  assumes "unmasked_text r = Some t" "pii_value r = Some v"
  shows "where_true (quarantine_where r) \<longleftrightarrow> (instr_pos t v = 0 \<or> v = [] \<or> v = ''...'')"
  using assms
  by (auto simp: where_true_def quarantine_where_def sql_or_def sql_le_def sql_in_def INSTR_def)

lemma where_true_cleansed:
  assumes "unmasked_text r = Some t" "pii_value r = Some v" "departments r = Some d"
  shows "where_true (cleansed_where r) \<longleftrightarrow> (instr_pos t v > 0 \<and> v \<noteq> [] \<and> v \<noteq> ''...'')"
  using assms
  by (auto simp: where_true_def cleansed_where_def sql_and_def sql_gt_def sql_not_def sql_in_def
      INSTR_def)

lemma in_quarantined_iff:
  assumes "r \<in> set view"
  shows "in_quarantined view r \<longleftrightarrow> where_true (quarantine_where r)"
proof
  assume "in_quarantined view r"
  then obtain r' where r': "where_true (quarantine_where r')"
      "quarantined_columns r' = quarantined_columns r"
    unfolding in_quarantined_def quarantine_insert_def by auto
  from r'(2) have "quarantine_where r' = quarantine_where r"
    by (simp add: quarantined_columns_def quarantine_where_def)
  with r'(1) show "where_true (quarantine_where r)" by simp
next
  assume "where_true (quarantine_where r)"
  with assms have "r \<in> set (filter (\<lambda>r. where_true (quarantine_where r)) view)" by simp
  then show "in_quarantined view r"
    unfolding in_quarantined_def quarantine_insert_def by (metis image_eqI set_map)
qed

lemma in_cleansed_iff:
  assumes "r \<in> set view"
  shows "in_cleansed view r \<longleftrightarrow> where_true (cleansed_where r)"
proof
  assume "in_cleansed view r"
  then obtain g where g: "g \<in> set (cleansed view)" "fst g = group_key r" "struct_of r \<in> set (snd g)"
    unfolding in_cleansed_def list_ex_iff by blast
  from g(1) have "snd g = map struct_of (filter (\<lambda>x. group_key x = fst g) (expanded_filtered view))"
    unfolding cleansed_def by auto
  with g(2,3) obtain r' where r': "r' \<in> set (expanded_filtered view)"
      "group_key r' = group_key r" "struct_of r' = struct_of r"
    by auto
  from r'(2,3) have "cleansed_where r' = cleansed_where r"
    by (simp add: cleansed_where_def group_key_def struct_of_def)
  moreover from r'(1) have "where_true (cleansed_where r')"
    by (simp add: expanded_filtered_def)
  ultimately show "where_true (cleansed_where r)" by simp
next
  assume "where_true (cleansed_where r)"
  with assms have mem: "r \<in> set (expanded_filtered view)"
    by (simp add: expanded_filtered_def)
  let ?g = "(group_key r, map struct_of (filter (\<lambda>x. group_key x = group_key r) (expanded_filtered view)))"
  have "?g \<in> set (cleansed view)"
    unfolding cleansed_def using mem by (auto intro!: image_eqI [of _ _ "group_key r"])
  moreover have "struct_of r \<in> set (snd ?g)"
    using mem by simp
  ultimately show "in_cleansed view r"
    unfolding in_cleansed_def list_ex_iff by (intro bexI [of _ ?g]) simp_all
qed

text \<open>
  Claim C9, as amended.  For every row of the expanded view whose \<open>unmasked_text\<close>,
  \<open>value\<close> and \<open>departments\<close> are all non-null, quarantining and cleansing are
  complementary: the row is inserted into the quarantined table if and only if
  \<open>INSTR(unmasked_text, value) <= 0\<close> or the value is \<open>""\<close> or \<open>"..."\<close>, it
  is kept in the cleansed table if and only if \<open>INSTR(unmasked_text, value) > 0\<close> and
  the value is neither, and so it is in exactly one of the two tables.
\<close>

theorem quarantine_cleanse_complementary:
  assumes "r \<in> set view" and "unmasked_text r = Some t" and "pii_value r = Some v"
      and "departments r = Some d"
  shows "INSTR (unmasked_text r) (pii_value r) = Some (int (instr_pos t v))
       \<and> (in_quarantined view r \<longleftrightarrow> int (instr_pos t v) \<le> 0 \<or> v = [] \<or> v = ''...'')
       \<and> (in_cleansed view r \<longleftrightarrow> int (instr_pos t v) > 0 \<and> v \<noteq> [] \<and> v \<noteq> ''...'')
       \<and> (in_quarantined view r \<longleftrightarrow> \<not> in_cleansed view r)"
proof -
  have q: "in_quarantined view r \<longleftrightarrow> instr_pos t v = 0 \<or> v = [] \<or> v = ''...''"
    using in_quarantined_iff [OF assms(1)] where_true_quarantine [OF assms(2,3)] by simp
  have c: "in_cleansed view r \<longleftrightarrow> instr_pos t v > 0 \<and> v \<noteq> [] \<and> v \<noteq> ''...''"
    using in_cleansed_iff [OF assms(1)] where_true_cleansed [OF assms(2,3,4)] by simp
  have i: "INSTR (unmasked_text r) (pii_value r) = Some (int (instr_pos t v))"
    using assms(2,3) by (simp add: INSTR_def)
  show ?thesis using q c i by auto
qed

lemmas view_rows = view_row_def found_row_def absent_row_def placeholder_row_def null_text_row_def

theorem quarantine_cleanse_complementary_witness:
  "in_cleansed [found_row, absent_row, placeholder_row] found_row
   \<and> \<not> in_quarantined [found_row, absent_row, placeholder_row] found_row
   \<and> in_quarantined [found_row, absent_row, placeholder_row] absent_row
   \<and> \<not> in_cleansed [found_row, absent_row, placeholder_row] absent_row
   \<and> in_quarantined [found_row, absent_row, placeholder_row] placeholder_row
   \<and> \<not> in_cleansed [found_row, absent_row, placeholder_row] placeholder_row"
proof -
  let ?view = "[found_row, absent_row, placeholder_row]"
  have f: "in_cleansed ?view found_row \<and> \<not> in_quarantined ?view found_row"
    using quarantine_cleanse_complementary [of found_row ?view "''Call Alice now''" "''Alice''"
        "[''Customer Support'']"]
    by (simp add: view_rows)
  have a: "in_quarantined ?view absent_row \<and> \<not> in_cleansed ?view absent_row"
    using quarantine_cleanse_complementary [of absent_row ?view "''Call Alice now''" "''Bob''"
        "[''Customer Support'']"]
    by (simp add: view_rows)
  have p: "in_quarantined ?view placeholder_row \<and> \<not> in_cleansed ?view placeholder_row"
    using quarantine_cleanse_complementary [of placeholder_row ?view "''Call Alice now''" "''...''"
        "[''Customer Support'']"]
    by (simp add: view_rows)
  show ?thesis using f a p by simp
qed

text \<open>
  Claim C9 as stated fails for a row with a null \<open>unmasked_text\<close>: \<open>INSTR\<close> is
  then \<open>NULL\<close>, neither \<open>WHERE\<close> condition is true, and the row, whose
  \<open>value\<close> and \<open>departments\<close> are non-null, is in neither table.
\<close>

theorem null_text_row_in_neither_table:
  "pii_value null_text_row = Some ''Alice''
   \<and> departments null_text_row = Some [''Customer Support'']
   \<and> \<not> in_quarantined [null_text_row] null_text_row
   \<and> \<not> in_cleansed [null_text_row] null_text_row"
  by (simp add: view_rows in_quarantined_def quarantine_insert_def in_cleansed_def cleansed_def
      expanded_filtered_def where_true_def quarantine_where_def cleansed_where_def
      sql_or_def sql_and_def sql_le_def sql_gt_def sql_not_def sql_in_def INSTR_def)

section \<open>Properties of \<open>redact_text\<close>\<close>

lemma replace_scan_no_occurrence:
  "\<not> occurs_in old s \<Longrightarrow> replace_scan old new s = s"
proof (induction s)
  case Nil
  then show ?case by (subst replace_scan.simps) simp
next
  case (Cons c cs)
  then have "take (length old) (c # cs) \<noteq> old" and "replace_scan old new cs = cs"
    by auto
  then show ?case by (subst replace_scan.simps) simp
qed

lemma py_replace_no_occurrence:
  "\<not> occurs_in old s \<Longrightarrow> py_replace s old new = s"
proof (cases "old = []")
  case True
  assume "\<not> occurs_in old s"
  with True show ?thesis by (cases s) simp_all
next
  case False
  assume "\<not> occurs_in old s"
  with False show ?thesis by (simp add: py_replace_def replace_scan_no_occurrence)
qed

lemma replace_scan_first_occurrence:
  assumes "old \<noteq> []" and "\<not> occurs_in old (a @ butlast old)"
  shows "replace_scan old new (a @ old @ b) = a @ new @ replace_scan old new b"
  using assms(2)
proof (induction a)
  case Nil
  show ?case using assms(1) by (subst replace_scan.simps) simp
next
  case (Cons c a)
  let ?xs = "c # a @ butlast old"
  have len: "length old \<le> length ?xs" by simp
  have eq: "c # a @ old @ b = ?xs @ last old # b"
    using assms(1) by (simp add: append_butlast_last_id [symmetric] del: append_butlast_last_id)
  have "take (length old) ?xs \<noteq> old" and rest: "\<not> occurs_in old (a @ butlast old)"
    using Cons.prems by auto
  then have "take (length old) (c # a @ old @ b) \<noteq> old"
    unfolding eq using len by (simp del: append_Cons)
  then have "replace_scan old new ((c # a) @ old @ b) = c # replace_scan old new (a @ old @ b)"
    by (subst replace_scan.simps) simp
  with Cons.IH [OF rest] show ?case by simp
qed


lemma redact_items_all_excluded:
  "\<forall>item \<in> set pii_list. pii_type item \<in> set exclusions \<Longrightarrow>
   redact_items unmasked pii_list exclusions = Inr unmasked"
  by (induction pii_list arbitrary: unmasked) simp_all

lemma redact_items_filter:
  "redact_items unmasked pii_list exclusions =
   redact_items unmasked (filter (\<lambda>item. pii_type item \<notin> set exclusions) pii_list) []"
  by (induction pii_list arbitrary: unmasked) (simp_all split: option.split)

lemma redact_items_foldl:
  "list_all (\<lambda>item. pii_value item \<noteq> None) pii_list \<Longrightarrow>
   redact_items (Some t) pii_list [] = Inr (Some (foldl replace_item t pii_list))"
  by (induction pii_list arbitrary: t) (auto simp: replace_item_def)

lemma map_result_cong:
  "(\<And>x. x \<in> set xs \<Longrightarrow> f x = g x) \<Longrightarrow> map_result f xs = map_result g xs"
  by (induction xs) (auto split: sum.split)

lemma redact_text_rows:
  assumes "length pii_detected = length unmasked_texts"
      and "length excluded_flags = length unmasked_texts"
  shows "redact_text unmasked_texts pii_detected excluded_flags =
     map_result (\<lambda>i. redact_row (unmasked_texts ! i) (pii_detected ! i) (excluded_flags ! i))
       [0..<length unmasked_texts]"
  unfolding redact_text_def
  by (rule map_result_cong) (simp add: assms series_at_def bind_def)

text \<open>
  Claim C10, as amended.  For every input row of \<open>redact_text\<close>: when the detected
  list is empty or every \<open>pii_type\<close> in it is in the exclusion list, the returned
  text is the input text unchanged.  Otherwise the excluded items have no effect and
  the non-excluded items are applied one after the other, in list order, each to the
  text the earlier ones produced: \<open>replace_item\<close> replaces the occurrences of the
  item's value, from left to right and without overlap, by the \<open>pii_type\<close> in square
  brackets (a text without the value is unchanged; the first occurrence is replaced and
  the scan goes on behind it).  The UDF does this row by row.
\<close>

theorem redact_text_frame:
  "(pii_list = [] \<or> (\<forall>item \<in> set pii_list. pii_type item \<in> set exclusions) \<longrightarrow>
      redact_row unmasked (Some pii_list) (Some exclusions) = Inr unmasked)
   \<and> redact_row unmasked (Some []) any_exclusions = Inr unmasked
   \<and> redact_row unmasked (Some pii_list) (Some exclusions)
       = redact_row unmasked (Some (filter (\<lambda>item. pii_type item \<notin> set exclusions) pii_list)) (Some [])
   \<and> (list_all (\<lambda>item. pii_value item \<noteq> None) pii_list \<longrightarrow>
        redact_row (Some t) (Some pii_list) (Some exclusions)
          = Inr (Some (foldl replace_item t
                         (filter (\<lambda>item. pii_type item \<notin> set exclusions) pii_list))))
   \<and> (\<not> occurs_in old t \<longrightarrow> py_replace t old new = t)
   \<and> (old \<noteq> [] \<and> \<not> occurs_in old (a @ butlast old) \<longrightarrow>
        py_replace (a @ old @ b) old new = a @ new @ py_replace b old new)
   \<and> (length pii_detected = length unmasked_texts
        \<and> length excluded_flags = length unmasked_texts \<longrightarrow>
        redact_text unmasked_texts pii_detected excluded_flags =
          map_result (\<lambda>i. redact_row (unmasked_texts ! i) (pii_detected ! i) (excluded_flags ! i))
            [0..<length unmasked_texts])"
proof (intro conjI impI)
  assume "pii_list = [] \<or> (\<forall>item \<in> set pii_list. pii_type item \<in> set exclusions)"
  then have "\<forall>item \<in> set pii_list. pii_type item \<in> set exclusions" by auto
  then show "redact_row unmasked (Some pii_list) (Some exclusions) = Inr unmasked"
    by (simp add: redact_row_def redact_items_all_excluded)
next
  show "redact_row unmasked (Some []) any_exclusions = Inr unmasked"
    by (simp add: redact_row_def split: option.split)
next
  show "redact_row unmasked (Some pii_list) (Some exclusions)
       = redact_row unmasked (Some (filter (\<lambda>item. pii_type item \<notin> set exclusions) pii_list)) (Some [])"
    using redact_items_filter [of unmasked pii_list exclusions] by (simp add: redact_row_def)
next
  assume "list_all (\<lambda>item. pii_value item \<noteq> None) pii_list"
  then have "list_all (\<lambda>item. pii_value item \<noteq> None)
      (filter (\<lambda>item. pii_type item \<notin> set exclusions) pii_list)"
    by (simp add: list_all_iff)
  then show "redact_row (Some t) (Some pii_list) (Some exclusions)
      = Inr (Some (foldl replace_item t (filter (\<lambda>item. pii_type item \<notin> set exclusions) pii_list)))"
    using redact_items_filter [of "Some t" pii_list exclusions]
    by (simp add: redact_row_def redact_items_foldl)
next
  assume "\<not> occurs_in old t"
  then show "py_replace t old new = t" by (rule py_replace_no_occurrence)
next
  assume "old \<noteq> [] \<and> \<not> occurs_in old (a @ butlast old)"
  then show "py_replace (a @ old @ b) old new = a @ new @ py_replace b old new"
    by (simp add: py_replace_def replace_scan_first_occurrence)
next
  assume "length pii_detected = length unmasked_texts
        \<and> length excluded_flags = length unmasked_texts"
  then show "redact_text unmasked_texts pii_detected excluded_flags =
          map_result (\<lambda>i. redact_row (unmasked_texts ! i) (pii_detected ! i) (excluded_flags ! i))
            [0..<length unmasked_texts]"
    by (simp add: redact_text_rows)
qed

lemmas replace_eval = py_replace_def replace_scan.simps bracketed_def replace_item_def

theorem redact_text_frame_witness:
  "redact_row (Some ''Call Alice at 555'') (Some [name_item, phone_item])
       (Some [Some ''NAME'', Some ''PHONE''])
     = Inr (Some ''Call Alice at 555'')
   \<and> redact_row (Some ''Call Alice at 555'') (Some [name_item, phone_item]) (Some [Some ''NAME''])
     = Inr (Some ''Call Alice at [PHONE]'')
   \<and> py_replace ''Call Alice'' ''Bob'' ''[NAME]'' = ''Call Alice''
   \<and> py_replace ''Call Alice now'' ''Alice'' ''[NAME]'' = ''Call [NAME] now''"
proof -
  let ?items = "[name_item, phone_item]"
  note all_excluded = redact_text_frame [where pii_list = ?items
      and exclusions = "[Some ''NAME'', Some ''PHONE'']" and unmasked = "Some ''Call Alice at 555''"
      and t = "''Call Alice at 555''" and old = "''Bob''" and new = "''[NAME]''"
      and a = "[]" and b = "[]" and pii_detected = "[]" and unmasked_texts = "[]"
      and excluded_flags = "[]" and any_exclusions = "None"]
  note name_excluded = redact_text_frame [where pii_list = ?items
      and exclusions = "[Some ''NAME'']" and unmasked = "Some ''Call Alice at 555''"
      and t = "''Call Alice at 555''" and old = "''Bob''" and new = "''[NAME]''"
      and a = "[]" and b = "[]" and pii_detected = "[]" and unmasked_texts = "[]"
      and excluded_flags = "[]" and any_exclusions = "None"]
  note replace = redact_text_frame [where pii_list = "[]"
      and exclusions = "[]" and unmasked = "None"
      and t = "''Call Alice''" and old = "''Bob''" and new = "''[NAME]''"
      and a = "[]" and b = "[]" and pii_detected = "[]" and unmasked_texts = "[]"
      and excluded_flags = "[]" and any_exclusions = "None"]
  note replace_first = redact_text_frame [where pii_list = "[]"
      and exclusions = "[]" and unmasked = "None"
      and t = "[]" and old = "''Alice''" and new = "''[NAME]''"
      and a = "''Call ''" and b = "'' now''" and pii_detected = "[]" and unmasked_texts = "[]"
      and excluded_flags = "[]" and any_exclusions = "None"]
  have excluded: "\<forall>item \<in> set ?items. pii_type item \<in> set [Some ''NAME'', Some ''PHONE'']"
    by (simp add: name_item_def phone_item_def)
  have 1: "redact_row (Some ''Call Alice at 555'') (Some ?items) (Some [Some ''NAME'', Some ''PHONE''])
      = Inr (Some ''Call Alice at 555'')"
    using all_excluded excluded by blast
  have valued: "list_all (\<lambda>item. pii_value item \<noteq> None) ?items"
    by (simp add: name_item_def phone_item_def)
  have "redact_row (Some ''Call Alice at 555'') (Some ?items) (Some [Some ''NAME''])
      = Inr (Some (foldl replace_item ''Call Alice at 555''
                     (filter (\<lambda>item. pii_type item \<notin> set [Some ''NAME'']) ?items)))"
    using name_excluded valued by blast
  also have "\<dots> = Inr (Some ''Call Alice at [PHONE]'')"
    by (simp add: name_item_def phone_item_def replace_eval)
  finally have 2: "redact_row (Some ''Call Alice at 555'') (Some ?items) (Some [Some ''NAME''])
      = Inr (Some ''Call Alice at [PHONE]'')" .
  have "\<not> occurs_in ''Bob'' ''Call Alice''" by simp
  then have 3: "py_replace ''Call Alice'' ''Bob'' ''[NAME]'' = ''Call Alice''"
    using replace by blast
  have "''Alice'' \<noteq> [] \<and> \<not> occurs_in ''Alice'' (''Call '' @ butlast ''Alice'')" by simp
  then have "py_replace (''Call '' @ ''Alice'' @ '' now'') ''Alice'' ''[NAME]''
      = ''Call '' @ ''[NAME]'' @ py_replace '' now'' ''Alice'' ''[NAME]''"
    using replace_first by blast
  moreover have "py_replace '' now'' ''Alice'' ''[NAME]'' = '' now''"
    by (simp add: replace_eval)
  ultimately have 4: "py_replace ''Call Alice now'' ''Alice'' ''[NAME]'' = ''Call [NAME] now''"
    by simp
  show ?thesis using 1 2 3 4 by simp
qed

text \<open>
  Claim C10 as stated fails when an earlier replacement destroys an occurrence of a later
  item's value: in \<open>John Smith\<close> with the items \<open>FIRST_NAME: John\<close> and
  \<open>NAME: John Smith\<close>, neither excluded, the value \<open>John Smith\<close> occurs in the
  input but is not replaced by \<open>[NAME]\<close>.
\<close>

theorem redact_text_later_item_missed:
  "redact_row (Some ''John Smith'') (Some [first_name_item, full_name_item]) (Some [])
     = Inr (Some ''[FIRST_NAME] Smith'')
   \<and> pii_type full_name_item \<notin> set []
   \<and> pii_value full_name_item = Some ''John Smith''
   \<and> occurs_in ''John Smith'' ''John Smith''
   \<and> \<not> occurs_in (bracketed (pii_type full_name_item)) ''[FIRST_NAME] Smith''"
  by (simp add: redact_row_def first_name_item_def full_name_item_def replace_eval)

section \<open>Pure functions of the notebooks\<close>

lemma boolean_keys_of_dicts:
  "boolean_keys_of (map JObj dicts) =
     Inr (concat (map (\<lambda>items. map fst (filter (\<lambda>kv. is_bool (snd kv)) items)) dicts))"
  by (induction dicts) simp_all

text \<open>
  Claim C4, as amended.  Most functions of the notebooks call Spark, MLflow or an HTTP
  service, but not all: \<open>get_boolean_keys\<close> of
  \<open>query_history_api_to_delta.py\<close> is a pure, deterministic function of its
  argument.  On a list of dicts it returns, in order, exactly the keys whose value is a
  bool, and that can be checked without any service.
\<close>

theorem get_boolean_keys_pure:
  "get_boolean_keys (JArr (map JObj dicts)) =
     Inr (concat (map (\<lambda>items. map fst (filter (\<lambda>kv. is_bool (snd kv)) items)) dicts))"
  by (simp add: get_boolean_keys_def bind_def boolean_keys_of_dicts)

text \<open>
  Claim C4 as stated fails: the output of \<open>get_boolean_keys\<close> on the two endpoints
  below is determined by the argument alone and is checked here by evaluation.
\<close>

theorem get_boolean_keys_checked:
  "get_boolean_keys endpoints_json = Inr [''enable_photon'', ''enable_serverless_compute'']"
  by (simp add: get_boolean_keys_def bind_def endpoints_json_def)

section \<open>Repeated external calls\<close>

lemma retry_loop_executions:
  "length (filter is_execute (fst (retry_loop svc max_retries num_try sql_statement trace)))
     \<le> length (filter is_execute trace) + tries_left max_retries num_try"
proof (induction svc max_retries num_try sql_statement trace rule: retry_loop.induct)
  case (1 svc max_retries num_try sql_statement trace)
  show ?case
  proof (cases "num_try \<le> max_retries")
    case False
    then show ?thesis by (subst retry_loop.simps) simp
  next
    case True
    let ?s = "process_sql_str sql_statement"
    have left: "1 \<le> tries_left max_retries num_try"
      using True by (auto simp: tries_left_def)
    show ?thesis
    proof (cases "execute svc (nat num_try) ?s")
      case (Inr results_string)
      then show ?thesis using True left by (subst retry_loop.simps) simp
    next
      case (Inl error)
      show ?thesis
      proof (cases "sql_rectifier svc sql_statement error")
        case rect: (Inl e)
        then show ?thesis using True Inl left by (subst retry_loop.simps) simp
      next
        case rect: (Inr repaired)
        show ?thesis
        proof (cases "num_try + 1 = max_retries")
          case last: True
          then show ?thesis using True Inl rect left by (subst retry_loop.simps) simp
        next
          case more: False
          have step: "Suc (tries_left max_retries (num_try + 1)) \<le> tries_left max_retries num_try"
            using True more by (auto simp: tries_left_def)
          have "retry_loop svc max_retries num_try sql_statement trace =
              retry_loop svc max_retries (num_try + 1) repaired
                (trace @ [Execute ?s, Rectify sql_statement])"
            using True Inl rect more by (subst retry_loop.simps) simp
          moreover have "length (filter is_execute (fst (retry_loop svc max_retries (num_try + 1) repaired
                (trace @ [Execute ?s, Rectify sql_statement]))))
              \<le> length (filter is_execute (trace @ [Execute ?s, Rectify sql_statement]))
                  + tries_left max_retries (num_try + 1)"
            using "1.IH" [OF True refl Inl rect more] .
          ultimately show ?thesis using step by simp
        qed
      qed
    qed
  qed
qed

lemma retriable_execution_executions:
  "length (filter is_execute (fst (retriable_execution svc question max_retries)))
     \<le> tries_left max_retries 0"
proof (cases "sql_generator svc question")
  case (Inl e)
  then show ?thesis by (simp add: retriable_execution_def)
next
  case (Inr sql_statement)
  obtain trace res where loop: "retry_loop svc max_retries 0 sql_statement [Generate] = (trace, res)"
    by (cases "retry_loop svc max_retries 0 sql_statement [Generate]")
  have "length (filter is_execute trace) \<le> tries_left max_retries 0"
    using retry_loop_executions [of svc max_retries 0 sql_statement "[Generate]"] loop by simp
  then show ?thesis
    using Inr loop by (auto simp: retriable_execution_def split: sum.splits option.splits prod.splits)
qed

lemma wait_loop_describes:
  "length (filter is_describe (fst (wait_loop describe is trace)))
     \<le> length (filter is_describe trace) + length is"
proof (induction "is" arbitrary: trace)
  case Nil
  then show ?case by simp
next
  case (Cons i "is")
  show ?case
    using Cons.IH [of "trace @ [Describe] @ (if i mod 40 = 0 then [Notice] else []) @ [Wait 10]"]
    by (auto split: sum.splits)
qed

lemmas retry_eval = retriable_execution_def retry_loop.simps flaky_services_def process_sql_str_def
  py_replace_def replace_scan.simps py_strip_def is_space_def

lemma flaky_run:
  "retriable_execution flaky_services ''top products'' 3 =
     ([Generate, Execute ''SELECT nme FROM t'', Rectify ''```sql SELECT nme FROM t```'',
       Execute ''SELECT name FROM t'', Summarize], Inr ''a'')"
  by (simp add: retry_eval)

lemma index_state_values:
  "index_state provisioning = Inr ''PROVISIONING_INDEX''"
  "index_state online = Inr ''ONLINE_NO_PENDING_UPDATE''"
  by code_simp+

lemma slow_index_run:
  "wait_for_index_to_be_ready slow_index =
     ([Describe, Notice, Wait 10, Describe, Wait 10, Describe], None)"
  by (simp add: wait_for_index_to_be_ready_def upt_conv_Cons slow_index_def bind_def
      index_state_values)

text \<open>
  Claim C1, as amended.  \<open>pii_bot\<close> sends at most one POST in an invocation and the
  query-history loop exactly one GET in an iteration, whatever the answer: neither
  retries nor backs off (the retry loop of \<open>pii_bot\<close> is commented out).  Two other
  functions do repeat an external call: \<open>retriable_execution\<close> executes the SQL
  statement again after a failure, at most \<open>max(1, max_retries)\<close> times in all, and
  \<open>wait_for_index_to_be_ready\<close> asks for the state of the index up to 180 times.
\<close>

theorem external_calls_per_invocation:
  "length (filter is_post (fst (pii_bot system_prompt endpoint prompts))) \<le> 1
   \<and> length (filter is_get (qh_trace (snd (fetch_page env st))))
       = Suc (length (filter is_get (qh_trace st)))
   \<and> length (filter is_execute (fst (retriable_execution svc question max_retries)))
       \<le> nat (max 1 max_retries)
   \<and> length (filter is_describe (fst (wait_for_index_to_be_ready describe))) \<le> 180"
proof (intro conjI)
  show "length (filter is_post (fst (pii_bot system_prompt endpoint prompts))) \<le> 1"
    by (simp add: pii_bot_def split: sum.split)
  show "length (filter is_get (qh_trace (snd (fetch_page env st))))
       = Suc (length (filter is_get (qh_trace st)))"
    by (rule fetch_page_gets)
  have "tries_left max_retries 0 \<le> nat (max 1 max_retries)"
    by (simp add: tries_left_def)
  with retriable_execution_executions [of svc question max_retries]
  show "length (filter is_execute (fst (retriable_execution svc question max_retries)))
       \<le> nat (max 1 max_retries)"
    by (rule le_trans)
  show "length (filter is_describe (fst (wait_for_index_to_be_ready describe))) \<le> 180"
    using wait_loop_describes [of describe "[0..<180]" "[]"]
    by (simp add: wait_for_index_to_be_ready_def)
qed

text \<open>
  Claim C1 as stated fails: when the warehouse rejects the first statement,
  \<open>retriable_execution\<close> executes a second one in the same invocation, and
  \<open>wait_for_index_to_be_ready\<close> describes an index that is still provisioning three
  times, sleeping ten seconds after each of the first two.
\<close>

theorem external_call_repeated:
  "fst (retriable_execution flaky_services ''top products'' 3) =
     [Generate, Execute ''SELECT nme FROM t'', Rectify ''```sql SELECT nme FROM t```'',
      Execute ''SELECT name FROM t'', Summarize]
   \<and> length (filter is_execute (fst (retriable_execution flaky_services ''top products'' 3))) = 2
   \<and> fst (wait_for_index_to_be_ready slow_index)
       = [Describe, Notice, Wait 10, Describe, Wait 10, Describe]
   \<and> length (filter is_describe (fst (wait_for_index_to_be_ready slow_index))) = 3"
  by (simp add: flaky_run slow_index_run)

end
